theory Spec2Isabelle
  imports Main "HOL-Library.AList"
begin

section \<open>Execution pipeline: guards and interceptors (application/factory.ts)\<close>

text \<open>
  \<^verbatim>\<open>executePipeline\<close> first awaits every guard of \<^verbatim>\<open>[...globalGuards, ...handler.guards]\<close>
  in a \<^verbatim>\<open>for\<close> loop and throws \<^verbatim>\<open>new HttpException('Forbidden', 403)\<close> at the first falsy
  answer. It then builds the interceptor chain over
  \<^verbatim>\<open>[...globalInterceptors, ...handler.interceptors]\<close> with one shared counter
  \<^verbatim>\<open>chainIndex\<close>, initialised to \<^verbatim>\<open>interceptors.length - 1\<close>.

  Everything observable is written to a trace (a list of event names), the way a recording
  test double would.
\<close>

datatype pipeline_error =
    HttpError string nat  \<comment> \<open>\<^verbatim>\<open>new HttpException(message, status)\<close>\<close>
  | Thrown string         \<comment> \<open>any other value thrown by user code\<close>

datatype guard_answer = Answers bool | GuardThrows pipeline_error

record 'ctx guard =
  gname :: string
  canActivate :: "'ctx \<Rightarrow> guard_answer"

text \<open>The guard loop: one \<^verbatim>\<open>canActivate\<close> call per iteration, recorded in the trace.\<close>

fun runGuards :: "'ctx \<Rightarrow> 'ctx guard list \<Rightarrow> string list \<Rightarrow> (pipeline_error + unit) \<times> string list" where
  "runGuards ctx [] tr = (Inr (), tr)"
| "runGuards ctx (g # gs) tr =
     (case canActivate g ctx of
        GuardThrows e \<Rightarrow> (Inl e, tr @ [gname g])
      | Answers b \<Rightarrow>
          if \<not> b then (Inl (HttpError ''Forbidden'' 403), tr @ [gname g])
          else runGuards ctx gs (tr @ [gname g]))"

text \<open>
  An interceptor is a small script: it may emit events and call \<^verbatim>\<open>next.handle()\<close>
  (\<open>Proceed\<close>) any number of times. Its own result is the result of its last
  \<open>Proceed\<close>, or \<open>None\<close> (\<^verbatim>\<open>undefined\<close>) when it never proceeds.
\<close>

datatype action = Emit string | Proceed

type_synonym interceptor = "action list"

record pstate =
  chainIndex :: int
  trace :: "string list"

text \<open>
  \<^verbatim>\<open>buildChain\<close> is the closure of \<^verbatim>\<open>executePipeline\<close>: when \<^verbatim>\<open>chainIndex < 0\<close> it runs the
  handler, otherwise it takes \<^verbatim>\<open>interceptors[chainIndex--]\<close> and hands it a call handler that
  re-enters \<^verbatim>\<open>buildChain\<close>. The first argument bounds the nesting depth of the closure calls;
  \<open>None\<close> is returned only when that bound is used up.
\<close>

fun buildChain :: "nat \<Rightarrow> interceptor list \<Rightarrow> string \<Rightarrow> pstate \<Rightarrow> (string option \<times> pstate) option"
  and runInterceptor :: "nat \<Rightarrow> interceptor list \<Rightarrow> string \<Rightarrow> action list \<Rightarrow> string option \<Rightarrow> pstate
         \<Rightarrow> (string option \<times> pstate) option" where
  "buildChain 0 ics hres st = None"
| "buildChain (Suc n) ics hres st =
     (if chainIndex st < 0
      then Some (Some hres, st\<lparr>trace := trace st @ [''handler'']\<rparr>)
      else runInterceptor n ics hres (ics ! nat (chainIndex st)) None
             (st\<lparr>chainIndex := chainIndex st - 1\<rparr>))"
| "runInterceptor n ics hres [] res st = Some (res, st)"
| "runInterceptor n ics hres (Emit e # as) res st =
     runInterceptor n ics hres as res (st\<lparr>trace := trace st @ [e]\<rparr>)"
| "runInterceptor n ics hres (Proceed # as) res st =
     (case buildChain n ics hres st of
        None \<Rightarrow> None
      | Some (r, st') \<Rightarrow> runInterceptor n ics hres as r st')"

text \<open>
  The pipeline up to the handler's result: guards, then the interceptor chain. \<open>hres\<close> is
  the value the route handler returns.
\<close>

definition executePipeline ::
  "nat \<Rightarrow> 'ctx \<Rightarrow> 'ctx guard list \<Rightarrow> 'ctx guard list \<Rightarrow> interceptor list \<Rightarrow> interceptor list \<Rightarrow> string
     \<Rightarrow> ((pipeline_error + string option) \<times> string list) option" where
  "executePipeline fuel ctx globalGuards routeGuards globalInterceptors routeInterceptors hres =
     (let guards = globalGuards @ routeGuards in
      case runGuards ctx guards [] of
        (Inl e, tr) \<Rightarrow> Some (Inl e, tr)
      | (Inr _, tr) \<Rightarrow>
          (let interceptors = globalInterceptors @ routeInterceptors in
           case buildChain fuel interceptors hres
                  \<lparr>chainIndex = int (length interceptors) - 1, trace = tr\<rparr> of
             None \<Rightarrow> None
           | Some (r, st) \<Rightarrow> Some (Inr r, trace st)))"

text \<open>The recording interceptor used as a test double.\<close>

definition recording :: "string \<Rightarrow> interceptor" where
  "recording name = [Emit (name @ ''-before''), Proceed, Emit (name @ ''-after'')]"


section \<open>HTTP exceptions and the top-level exception handler\<close>

text \<open>
  \<^verbatim>\<open>HttpException\<close> keeps \<^verbatim>\<open>status\<close> and \<^verbatim>\<open>response: string | object\<close>. An object is an
  association list in property order; \<^verbatim>\<open>{ statusCode: s, ...obj }\<close> assigns the properties of
  \<^verbatim>\<open>obj\<close> one after the other, replacing the value of a key that is already there.
  \<open>JUndefined\<close> stands for the values \<^verbatim>\<open>JSON.stringify\<close> has no text for (\<^verbatim>\<open>undefined\<close>, a
  function, a symbol).
\<close>

datatype json =
    JNum int
  | JStr string
  | JBool bool
  | JNull
  | JUndefined
  | JArr "json list"
  | JObj "(string \<times> json) list"

type_synonym jobject = "(string \<times> json) list"

text \<open>
  What \<^verbatim>\<open>JSON.stringify\<close> writes, as the value that reading the text back gives: a property
  whose value is \<^verbatim>\<open>undefined\<close> is left out, an \<^verbatim>\<open>undefined\<close> array element becomes \<^verbatim>\<open>null\<close>.
\<close>

primrec stringified :: "json \<Rightarrow> json" where
  "stringified (JNum n) = JNum n"
| "stringified (JStr s) = JStr s"
| "stringified (JBool b) = JBool b"
| "stringified JNull = JNull"
| "stringified JUndefined = JUndefined"
| "stringified (JArr xs) =
     JArr (map (\<lambda>x. if x = JUndefined then JNull else x) (map stringified xs))"
| "stringified (JObj ps) =
     JObj (filter (\<lambda>p. snd p \<noteq> JUndefined) (map (map_prod id stringified) ps))"

definition stringifiedObject :: "jobject \<Rightarrow> jobject" where
  "stringifiedObject ps = filter (\<lambda>p. snd p \<noteq> JUndefined) (map (map_prod id stringified) ps)"

text \<open>The value of a property of an object: the last assignment to the key.\<close>

definition property :: "jobject \<Rightarrow> string \<Rightarrow> json option" where
  "property ob = map_of (rev ob)"

datatype response_body = RString string | RObject jobject

record http_exception =
  status :: int
  response :: response_body
  stack :: "string option"      \<comment> \<open>\<^verbatim>\<open>Error.prototype.stack\<close>: \<^verbatim>\<open>undefined\<close> or a string\<close>
  retryAfter :: "int option"    \<comment> \<open>only \<^verbatim>\<open>TooManyRequestsException\<close> sets it\<close>

text \<open>What a \<^verbatim>\<open>catch (error)\<close> can receive: \<^verbatim>\<open>error: unknown\<close>.\<close>

datatype thrown =
    IsHttpException http_exception
  | IsError string "string option"   \<comment> \<open>another \<^verbatim>\<open>Error\<close>: its message and stack\<close>
  | OtherThrown string               \<comment> \<open>anything else, given by \<^verbatim>\<open>String(error)\<close>\<close>

datatype header_value =
    HText string
  | HNumber int    \<comment> \<open>\<^verbatim>\<open>String(n)\<close> of a number\<close>

text \<open>The body of a response is the JSON text it was built from, read back as an object.\<close>

record http_response =
  rstatus :: int
  rheaders :: "(string \<times> header_value) list"
  rbody :: jobject

text \<open>
  \<^verbatim>\<open>new Response(JSON.stringify(body), { status, headers })\<close>. The constructor of the platform
  throws a \<^verbatim>\<open>RangeError\<close> when the status is not in the range 200 to 599, and a
  \<^verbatim>\<open>TypeError\<close> when a body is given with a null-body status (101, 103, 204, 205, 304).
\<close>

datatype response_error = ResponseRangeError | ResponseTypeError

definition nullBodyStatus :: "int \<Rightarrow> bool" where
  "nullBodyStatus s \<longleftrightarrow> s = 101 \<or> s = 103 \<or> s = 204 \<or> s = 205 \<or> s = 304"

definition newResponse ::
  "jobject \<Rightarrow> int \<Rightarrow> (string \<times> header_value) list \<Rightarrow> response_error + http_response" where
  "newResponse body st hs =
     (if st < 200 \<or> 599 < st then Inl ResponseRangeError
      else if nullBodyStatus st then Inl ResponseTypeError
      else Inr \<lparr>rstatus = st, rheaders = hs, rbody = stringifiedObject body\<rparr>)"

definition spread :: "jobject \<Rightarrow> jobject \<Rightarrow> jobject" where
  "spread target source = fold (\<lambda>(k, v). AList.update k v) source target"

definition truthy :: "string option \<Rightarrow> bool" where
  "truthy s = (case s of None \<Rightarrow> False | Some t \<Rightarrow> t \<noteq> [])"

text \<open>
  \<^verbatim>\<open>HttpException.toResponse\<close>, with the override of \<^verbatim>\<open>TooManyRequestsException\<close>, which
  copies the response with a \<^verbatim>\<open>Retry-After\<close> header when \<^verbatim>\<open>retryAfter\<close> is truthy.
\<close>

definition toResponse :: "http_exception \<Rightarrow> response_error + http_response" where
  "toResponse e =
     (let body = (case response e of
                    RString m \<Rightarrow> [(''statusCode'', JNum (status e)), (''message'', JStr m)]
                  | RObject ob \<Rightarrow> spread [(''statusCode'', JNum (status e))] ob)
      in case newResponse body (status e) [(''Content-Type'', HText ''application/json'')] of
           Inl err \<Rightarrow> Inl err
         | Inr base \<Rightarrow>
             (case retryAfter e of
                None \<Rightarrow> Inr base
              | Some n \<Rightarrow>
                  if n \<noteq> 0
                  then Inr (base\<lparr>rheaders :=
                              AList.update ''Retry-After'' (HNumber n) (rheaders base)\<rparr>)
                  else Inr base))"

text \<open>
  \<^verbatim>\<open>toHttpException\<close>: an \<^verbatim>\<open>HttpException\<close> is returned as it is, anything else becomes an
  \<^verbatim>\<open>InternalServerErrorException\<close> (status 500). \<open>engineStack\<close> is the stack the engine
  gives to that newly constructed exception.
\<close>

definition toHttpException :: "string option \<Rightarrow> thrown \<Rightarrow> http_exception" where
  "toHttpException engineStack error =
     (case error of
        IsHttpException e \<Rightarrow> e
      | IsError m _ \<Rightarrow>
          \<lparr>status = 500, response = RString m, stack = engineStack, retryAfter = None\<rparr>
      | OtherThrown s \<Rightarrow>
          \<lparr>status = 500, response = RString s, stack = engineStack, retryAfter = None\<rparr>)"

definition errorToResponse ::
  "string option \<Rightarrow> thrown \<Rightarrow> bool \<Rightarrow> response_error + http_response" where
  "errorToResponse engineStack error includeStack =
     (let exception = toHttpException engineStack error in
      if includeStack \<and> truthy (stack exception)
      then newResponse
             (case response exception of
                RString m \<Rightarrow>
                  [(''statusCode'', JNum (status exception)), (''message'', JStr m),
                   (''stack'', JStr (the (stack exception)))]
              | RObject ob \<Rightarrow>
                  AList.update ''stack'' (JStr (the (stack exception)))
                    (spread [(''statusCode'', JNum (status exception))] ob))
             (status exception)
             [(''Content-Type'', HText ''application/json'')]
      else toResponse exception)"

text \<open>
  \<^verbatim>\<open>handleException\<close>: each global filter is offered the error; the first whose \<^verbatim>\<open>catch\<close>
  returns wins (\<open>None\<close>: that filter threw). Otherwise the error is rendered by
  \<^verbatim>\<open>errorToResponse\<close>, with the stack when \<^verbatim>\<open>env?.['ENVIRONMENT'] === 'development'\<close>; what
  the \<^verbatim>\<open>Response\<close> constructor throws there is not caught.
\<close>

type_synonym exception_filter = "thrown \<Rightarrow> http_response option"

fun tryFilters :: "exception_filter list \<Rightarrow> thrown \<Rightarrow> http_response option" where
  "tryFilters [] error = None"
| "tryFilters (f # fs) error =
     (case f error of Some r \<Rightarrow> Some r | None \<Rightarrow> tryFilters fs error)"

definition isDev :: "(string \<rightharpoonup> json) option \<Rightarrow> bool" where
  "isDev env = (case env of
                  None \<Rightarrow> False
                | Some e \<Rightarrow> e ''ENVIRONMENT'' = Some (JStr ''development''))"

definition handleException ::
  "exception_filter list \<Rightarrow> (string \<rightharpoonup> json) option \<Rightarrow> string option \<Rightarrow> thrown
     \<Rightarrow> response_error + http_response" where
  "handleException globalFilters env engineStack error =
     (case tryFilters globalFilters error of
        Some r \<Rightarrow> Inr r
      | None \<Rightarrow> errorToResponse engineStack error (isDev env))"

section \<open>Radix router (router/radix-router.ts)\<close>

text \<open>
  A \<^verbatim>\<open>RadixNode\<close> owns its children, so the tree is a datatype. The two \<^verbatim>\<open>Map\<close>s are
  association lists in insertion order (\<^verbatim>\<open>Map.set\<close> keeps the position of a key that is
  already there, as \<open>AList.update\<close> does). A compiled \<^verbatim>\<open>RegExp\<close> is kept as its
  \<^verbatim>\<open>test\<close> predicate.
\<close>

datatype node_type = Static | Param | Wildcard | Regex

datatype 'h radix_node = RadixNode
  (ntype: node_type)
  (segment: string)
  (pattern: "(string \<Rightarrow> bool) option")
  (children: "(string \<times> 'h radix_node) list")
  (paramChild: "'h radix_node option")
  (wildcardChild: "'h radix_node option")
  (handlers: "(string \<times> 'h) list")
  (priority: nat)

datatype router_error = SyntaxError string  \<comment> \<open>thrown by \<^verbatim>\<open>new RegExp\<close> on an invalid pattern\<close>

record 'h route_definition =
  rmethod :: string
  rpath :: string
  rhandler :: 'h

record 'h router =
  root :: "'h radix_node"
  routes :: "'h route_definition list"

definition createNode :: "node_type \<Rightarrow> string \<Rightarrow> (string \<Rightarrow> bool) option \<Rightarrow> 'h radix_node" where
  "createNode t s p =
     RadixNode t s p [] None None []
       (if t = Static then 3 else if t = Param then 2 else if t = Regex then 1 else 0)"

definition newRouter :: "'h router" where
  "newRouter = \<lparr>root = createNode Static [] None, routes = []\<rparr>"

text \<open>Field assignments on a node.\<close>

fun setSegment :: "string \<Rightarrow> 'h radix_node \<Rightarrow> 'h radix_node" where
  "setSegment s (RadixNode t _ p cs pc wc hs pr) = RadixNode t s p cs pc wc hs pr"

fun setChild :: "string \<Rightarrow> 'h radix_node \<Rightarrow> 'h radix_node \<Rightarrow> 'h radix_node" where
  "setChild k c (RadixNode t s p cs pc wc hs pr) =
     RadixNode t s p (AList.update k c cs) pc wc hs pr"

fun setParamChild :: "'h radix_node \<Rightarrow> 'h radix_node \<Rightarrow> 'h radix_node" where
  "setParamChild c (RadixNode t s p cs pc wc hs pr) = RadixNode t s p cs (Some c) wc hs pr"

fun setWildcardChild :: "'h radix_node \<Rightarrow> 'h radix_node \<Rightarrow> 'h radix_node" where
  "setWildcardChild c (RadixNode t s p cs pc wc hs pr) = RadixNode t s p cs pc (Some c) hs pr"

fun setHandler :: "string \<Rightarrow> 'h \<Rightarrow> 'h radix_node \<Rightarrow> 'h radix_node" where
  "setHandler m h (RadixNode t s p cs pc wc hs pr) =
     RadixNode t s p cs pc wc (AList.update m h hs) pr"

subsection \<open>Paths\<close>

text \<open>\<^verbatim>\<open>path.replace(/\/+/g, '/')\<close>, then one leading and one trailing slash are removed.\<close>

fun collapseSlashes :: "string \<Rightarrow> string" where
  "collapseSlashes (a # b # cs) =
     (if a = CHR ''/'' \<and> b = CHR ''/'' then collapseSlashes (b # cs)
      else a # collapseSlashes (b # cs))"
| "collapseSlashes cs = cs"

definition normalizePath :: "string \<Rightarrow> string" where
  "normalizePath path =
     (let n1 = collapseSlashes path;
          n2 = (if n1 \<noteq> [] \<and> hd n1 = CHR ''/'' then tl n1 else n1);
          n3 = (if n2 \<noteq> [] \<and> last n2 = CHR ''/'' then butlast n2 else n2)
      in n3)"

text \<open>\<^verbatim>\<open>String.prototype.split('/')\<close>.\<close>

fun splitSlash :: "string \<Rightarrow> string \<Rightarrow> string list" where
  "splitSlash acc [] = [acc]"
| "splitSlash acc (c # cs) =
     (if c = CHR ''/'' then acc # splitSlash [] cs else splitSlash (acc @ [c]) cs)"

definition splitPath :: "string \<Rightarrow> string list" where
  "splitPath path = (if path = [] then [] else filter (\<lambda>s. s \<noteq> []) (splitSlash [] path))"

text \<open>\<^verbatim>\<open>Array.prototype.join('/')\<close>.\<close>

fun joinSlash :: "string list \<Rightarrow> string" where
  "joinSlash [] = []"
| "joinSlash [s] = s"
| "joinSlash (s # t # ss) = s @ CHR ''/'' # joinSlash (t # ss)"

subsection \<open>Registration\<close>

text \<open>
  \<^verbatim>\<open>parseSegment\<close>. The parameter syntax is the regular expression
  \<^verbatim>\<open>/^:([^(]+)(?:\((.+)\))?$/\<close>: the name is the longest run of characters other than
  \<^verbatim>\<open>(\<close> and must not be empty; what follows is either nothing or a parenthesised, non-empty
  text without line terminators, which becomes \<^verbatim>\<open>new RegExp(`^${text}$`)\<close>. \<open>compile\<close>
  stands for that constructor applied to the constraint text: \<open>None\<close> when it throws,
  otherwise the \<^verbatim>\<open>test\<close> predicate of the anchored expression.
\<close>

datatype parsed = Parsed (ptype: node_type) (pname: string) (ppattern: "(string \<Rightarrow> bool) option")

definition parseSegment ::
  "(string \<Rightarrow> (string \<Rightarrow> bool) option) \<Rightarrow> string \<Rightarrow> router_error + parsed" where
  "parseSegment compile seg =
     (if seg \<noteq> [] \<and> hd seg = CHR ''*''
      then Inr (Parsed Wildcard (if tl seg = [] then ''wildcard'' else tl seg) None)
      else if seg \<noteq> [] \<and> hd seg = CHR '':''
      then (let name = takeWhile (\<lambda>c. c \<noteq> CHR ''('') (tl seg);
                after = dropWhile (\<lambda>c. c \<noteq> CHR ''('') (tl seg)
            in if name = [] then Inr (Parsed Static seg None)
               else if after = [] then Inr (Parsed Param name None)
               else if 3 \<le> length after \<and> last after = CHR '')''
                       \<and> (\<forall>c \<in> set (butlast (tl after)). c \<noteq> CHR 0x0A \<and> c \<noteq> CHR 0x0D)
               then (case compile (butlast (tl after)) of
                       None \<Rightarrow> Inl (SyntaxError (butlast (tl after)))
                     | Some t \<Rightarrow> Inr (Parsed Regex name (Some t)))
               else Inr (Parsed Static seg None))
      else Inr (Parsed Static seg None))"

text \<open>The \<^verbatim>\<open>while\<close> loop of \<^verbatim>\<open>splitOrExtendNode\<close>: the length of the longest common prefix.\<close>

fun commonLength :: "string \<Rightarrow> string \<Rightarrow> nat" where
  "commonLength (a # as) (b # bs) = (if a = b then Suc (commonLength as bs) else 0)"
| "commonLength _ _ = 0"

text \<open>
  \<^verbatim>\<open>insertSegment\<close> and \<^verbatim>\<open>splitOrExtendNode\<close> return a reference to a node inside the tree
  they have just restructured, and \<^verbatim>\<open>register\<close> goes on mutating through that reference.
  Here they return the node together with the function that writes the node, once updated,
  back into its place, giving the updated parent.
\<close>

definition splitOrExtendNode ::
  "'h radix_node \<Rightarrow> 'h radix_node \<Rightarrow> string \<Rightarrow> string
     \<Rightarrow> 'h radix_node \<times> ('h radix_node \<Rightarrow> 'h radix_node)" where
  "splitOrExtendNode parent existing newSegment firstChar =
     (let existingSegment = segment existing;
          cl = commonLength existingSegment newSegment
      in if cl = length existingSegment \<and> cl = length newSegment
         then (existing, \<lambda>e. setChild firstChar e parent)
         else if cl = length newSegment
         then (let commonNode = createNode Static newSegment None;
                   existing' = setSegment (drop cl existingSegment) existing
               in (setChild (take 1 (segment existing')) existing' commonNode,
                   \<lambda>c. setChild firstChar c parent))
         else if cl = length existingSegment
         then (let remainingSegment = drop cl newSegment;
                   remainingFirstChar = take 1 remainingSegment
               in case map_of (children existing) remainingFirstChar of
                    None \<Rightarrow> (createNode Static remainingSegment None,
                             \<lambda>c. setChild firstChar (setChild remainingFirstChar c existing) parent)
                  | Some child \<Rightarrow>
                            (child,
                             \<lambda>c. setChild firstChar (setChild remainingFirstChar c existing) parent))
         else (let commonNode = createNode Static (take cl existingSegment) None;
                   existing' = setSegment (drop cl existingSegment) existing;
                   commonNode' = setChild (take 1 (segment existing')) existing' commonNode;
                   newChild = createNode Static (drop cl newSegment) None
               in (newChild,
                   \<lambda>c. setChild firstChar (setChild (take 1 (segment newChild)) c commonNode') parent)))"

definition insertSegment ::
  "(string \<Rightarrow> (string \<Rightarrow> bool) option) \<Rightarrow> 'h radix_node \<Rightarrow> string
     \<Rightarrow> router_error + 'h radix_node \<times> ('h radix_node \<Rightarrow> 'h radix_node)" where
  "insertSegment compile parent seg =
     (case parseSegment compile seg of
        Inl e \<Rightarrow> Inl e
      | Inr parsed \<Rightarrow>
          (case ptype parsed of
             Static \<Rightarrow>
               (let firstChar = take 1 seg in
                case map_of (children parent) firstChar of
                  None \<Rightarrow> Inr (createNode Static seg None, \<lambda>c. setChild firstChar c parent)
                | Some child \<Rightarrow>
                    if segment child \<noteq> seg
                    then Inr (splitOrExtendNode parent child seg firstChar)
                    else Inr (child, \<lambda>c. setChild firstChar c parent))
           | Wildcard \<Rightarrow>
               (case wildcardChild parent of
                  None \<Rightarrow> Inr (createNode Wildcard (pname parsed) None,
                                \<lambda>c. setWildcardChild c parent)
                | Some w \<Rightarrow> Inr (w, \<lambda>c. setWildcardChild c parent))
           | _ \<Rightarrow>
               (case paramChild parent of
                  None \<Rightarrow> Inr (createNode (ptype parsed) (pname parsed) (ppattern parsed),
                                \<lambda>c. setParamChild c parent)
                | Some q \<Rightarrow> Inr (q, \<lambda>c. setParamChild c parent))))"

text \<open>
  The loop of \<^verbatim>\<open>register\<close> followed by \<^verbatim>\<open>node.handlers.set(method, handler)\<close>. When a segment
  makes \<^verbatim>\<open>new RegExp\<close> throw, the nodes inserted so far stay in the tree and no handler is
  set.
\<close>

fun insertPath ::
  "(string \<Rightarrow> (string \<Rightarrow> bool) option) \<Rightarrow> 'h radix_node \<Rightarrow> string list \<Rightarrow> string \<Rightarrow> 'h
     \<Rightarrow> 'h radix_node \<times> router_error option" where
  "insertPath compile node [] method handler = (setHandler method handler node, None)"
| "insertPath compile node (seg # rest) method handler =
     (case insertSegment compile node seg of
        Inl e \<Rightarrow> (node, Some e)
      | Inr (target, plug) \<Rightarrow>
          (case insertPath compile target rest method handler of
             (target', err) \<Rightarrow> (plug target', err)))"

definition register ::
  "(string \<Rightarrow> (string \<Rightarrow> bool) option) \<Rightarrow> string \<Rightarrow> string \<Rightarrow> 'h \<Rightarrow> 'h router
     \<Rightarrow> 'h router \<times> router_error option" where
  "register compile method path handler r =
     (let segments = splitPath (normalizePath path) in
      case insertPath compile (root r) segments method handler of
        (root', Some e) \<Rightarrow> (r\<lparr>root := root'\<rparr>, Some e)
      | (root', None) \<Rightarrow>
          (r\<lparr>root := root',
             routes := routes r @ [\<lparr>rmethod = method, rpath = path, rhandler = handler\<rparr>]\<rparr>,
           None))"

subsection \<open>Matching\<close>

definition startsWith :: "string \<Rightarrow> string \<Rightarrow> bool" where
  "startsWith s p = (take (length p) s = p)"

definition getHandler :: "'h radix_node \<Rightarrow> string \<Rightarrow> 'h option" where
  "getHandler node method =
     (case map_of (handlers node) method of
        Some h \<Rightarrow> Some h
      | None \<Rightarrow> map_of (handlers node) ''ALL'')"

text \<open>
  \<^verbatim>\<open>matchPath(node, segments, index, params, method)\<close>, by recursion on the segments from
  \<^verbatim>\<open>index\<close> on. \<^verbatim>\<open>params\<close> is mutated in place, so it is returned with the result, also when
  the result is \<^verbatim>\<open>null\<close>.
\<close>

type_synonym params = "string \<rightharpoonup> string"

primrec matchPath ::
  "string list \<Rightarrow> 'h radix_node \<Rightarrow> params \<Rightarrow> string \<Rightarrow> 'h option \<times> params" where
  "matchPath [] = (\<lambda>node params method. (getHandler node method, params))"
| "matchPath (seg # rest) = (\<lambda>node params method.
     (let firstChar = take 1 seg;
          s1 = (case map_of (children node) firstChar of
                  None \<Rightarrow> (None, params)
                | Some staticChild \<Rightarrow>
                    (if segment staticChild = seg
                     then matchPath rest staticChild params method
                     else if startsWith seg (segment staticChild)
                     then (let remaining = drop (length (segment staticChild)) seg;
                               nextFirstChar = take 1 remaining
                           in (case map_of (children staticChild) nextFirstChar of
                                 None \<Rightarrow> (None, params)
                               | Some nextChild \<Rightarrow>
                                   (if remaining = segment nextChild
                                    then matchPath rest nextChild params method
                                    else (None, params))))
                     else (None, params)))
      in (if fst s1 \<noteq> None then s1
          else
      (let p1 = snd s1;
           s2 = (case paramChild node of
                   None \<Rightarrow> (None, p1)
                 | Some pc \<Rightarrow>
                     (case pattern pc of
                        None \<Rightarrow> (None, p1)
                      | Some test \<Rightarrow>
                          (if test seg
                           then (let r = matchPath rest pc (p1(segment pc \<mapsto> seg)) method
                                 in (if fst r \<noteq> None then r
                                     else (None, (snd r)(segment pc := p1 (segment pc)))))
                           else (None, p1))))
       in (if fst s2 \<noteq> None then s2
           else
      (let p2 = snd s2;
           s3 = (case paramChild node of
                   None \<Rightarrow> (None, p2)
                 | Some pc \<Rightarrow>
                     (case pattern pc of
                        Some test \<Rightarrow> (None, p2)
                      | None \<Rightarrow>
                          (let r = matchPath rest pc (p2(segment pc \<mapsto> seg)) method
                           in (if fst r \<noteq> None then r
                               else (None, (snd r)(segment pc := p2 (segment pc)))))))
       in (if fst s3 \<noteq> None then s3
           else
      (let p3 = snd s3
       in (case wildcardChild node of
             Some wc \<Rightarrow> (getHandler wc method, p3(segment wc \<mapsto> joinSlash (seg # rest)))
           | None \<Rightarrow> (None, p3))))))))))"

definition match :: "'h router \<Rightarrow> string \<Rightarrow> string \<Rightarrow> ('h \<times> params) option" where
  "match r method path =
     (let segments = splitPath (normalizePath path) in
      case matchPath segments (root r) Map.empty method of
        (Some h, params) \<Rightarrow> Some (h, params)
      | (None, _) \<Rightarrow> None)"

text \<open>
  \<open>wildcardFree segs node\<close>: no node that \<^verbatim>\<open>matchPath\<close> can visit below \<open>node\<close> while it
  consumes \<open>segs\<close> has a wildcard child (a static child may be entered through one split
  node).
\<close>

primrec wildcardFree :: "string list \<Rightarrow> 'h radix_node \<Rightarrow> bool" where
  "wildcardFree [] = (\<lambda>node. True)"
| "wildcardFree (seg # rest) = (\<lambda>node.
     wildcardChild node = None
   \<and> (\<forall>c \<in> snd ` set (children node).
         wildcardFree rest c \<and> (\<forall>g \<in> snd ` set (children c). wildcardFree rest g))
   \<and> (\<forall>pc. paramChild node = Some pc \<longrightarrow> wildcardFree rest pc))"


subsection \<open>The precedence of the match contract\<close>

text \<open>
  The match contract in the words of the specification: at a level, the candidates are
  tried in a fixed order and the first one that yields a handler wins. A branch receives
  the parameter map and returns it with its result; \<open>orderedChoice\<close> hands the map a failed
  branch returns to the next branch. The static branch enters the static child whose text
  is the segment, or the child of a split node that holds the rest of the segment;
  \<open>paramBranch True\<close> is the regex-constrained parameter, \<open>paramBranch False\<close> the plain
  one.
\<close>

type_synonym 'h branch = "params \<Rightarrow> 'h option \<times> params"

fun orderedChoice :: "'h branch list \<Rightarrow> 'h branch" where
  "orderedChoice [] ps = (None, ps)"
| "orderedChoice (b # bs) ps =
     (case b ps of
        (Some h, ps') \<Rightarrow> (Some h, ps')
      | (None, ps') \<Rightarrow> orderedChoice bs ps')"

definition staticTarget :: "'h radix_node \<Rightarrow> string \<Rightarrow> 'h radix_node option" where
  "staticTarget node seg =
     (case map_of (children node) (take 1 seg) of
        None \<Rightarrow> None
      | Some c \<Rightarrow>
          if segment c = seg then Some c
          else if startsWith seg (segment c)
          then (case map_of (children c) (take 1 (drop (length (segment c)) seg)) of
                  None \<Rightarrow> None
                | Some g \<Rightarrow> if drop (length (segment c)) seg = segment g then Some g else None)
          else None)"

definition staticBranch :: "'h radix_node \<Rightarrow> string \<Rightarrow> string list \<Rightarrow> string \<Rightarrow> 'h branch" where
  "staticBranch node seg rest method ps =
     (case staticTarget node seg of
        None \<Rightarrow> (None, ps)
      | Some c \<Rightarrow> matchPath rest c ps method)"

definition paramBranch ::
  "bool \<Rightarrow> 'h radix_node \<Rightarrow> string \<Rightarrow> string list \<Rightarrow> string \<Rightarrow> 'h branch" where
  "paramBranch constrained node seg rest method ps =
     (case paramChild node of
        None \<Rightarrow> (None, ps)
      | Some pc \<Rightarrow>
          if (pattern pc \<noteq> None) = constrained \<and> (\<forall>test. pattern pc = Some test \<longrightarrow> test seg)
          then (case matchPath rest pc (ps(segment pc \<mapsto> seg)) method of
                  (Some h, ps') \<Rightarrow> (Some h, ps')
                | (None, ps') \<Rightarrow> (None, ps'(segment pc := ps (segment pc))))
          else (None, ps))"

definition wildcardBranch ::
  "'h radix_node \<Rightarrow> string \<Rightarrow> string list \<Rightarrow> string \<Rightarrow> 'h branch" where
  "wildcardBranch node seg rest method ps =
     (case wildcardChild node of
        None \<Rightarrow> (None, ps)
      | Some wc \<Rightarrow> (getHandler wc method, ps(segment wc \<mapsto> joinSlash (seg # rest))))"


section \<open>Dependency-injection container (di/container.ts)\<close>

text \<open>
  An injection token is a class, a symbol or a string. A class is identified by its name.
\<close>

datatype token = ClassToken string | SymbolToken string | StringToken string

fun getTokenName :: "token \<Rightarrow> string" where
  "getTokenName (ClassToken n) = (if n = [] then ''Anonymous'' else n)"
| "getTokenName (SymbolToken d) = ''Symbol('' @ d @ '')''"
| "getTokenName (StringToken s) = s"

datatype scope = SINGLETON | REQUEST | TRANSIENT

text \<open>
  Run-time values. \<open>Obj k\<close> is an object with identity \<open>k\<close>. The last three are
  \<^verbatim>\<open>Promise\<close> instances: \<open>Promise v\<close> is returned by an asynchronous user factory and will
  fulfil with \<open>v\<close>; \<open>PendingNew cls args\<close> is
  \<^verbatim>\<open>Promise.all(args).then((resolvedArgs) => new cls(...resolvedArgs))\<close>; \<open>ThenCache p\<close> is
  \<^verbatim>\<open>p.then((resolved) => { ...; return resolved; })\<close>, the promise whose callback stores the
  instance once \<open>p\<close> has settled. The callbacks run after the synchronous call has returned
  and are not run here.
\<close>

datatype val =
    Undefined
  | Obj nat
  | Prim string
  | ContainerRef nat
  | Promise val
  | PendingNew string "val list"
  | ThenCache val

fun isPromise :: "val \<Rightarrow> bool" where
  "isPromise (Promise _) = True"
| "isPromise (PendingNew _ _) = True"
| "isPromise (ThenCache _) = True"
| "isPromise _ = False"

datatype container_error =
    ContainerError string
  | CircularDependencyError string
  | TokenNotFoundError string
  | RangeError    \<comment> \<open>the engine's call stack is exhausted\<close>

text \<open>\<^verbatim>\<open>tokens.map((t) => getTokenName(t)).join(' -> ')\<close>\<close>

fun joinArrow :: "string list \<Rightarrow> string" where
  "joinArrow [] = []"
| "joinArrow [s] = s"
| "joinArrow (s # t # ss) = s @ '' -> '' @ joinArrow (t # ss)"

definition circularDependencyError :: "token list \<Rightarrow> container_error" where
  "circularDependencyError tokens =
     CircularDependencyError (''Circular dependency detected: '' @ joinArrow (map getTokenName tokens))"

definition tokenNotFoundError :: "token \<Rightarrow> container_error" where
  "tokenNotFoundError t = TokenNotFoundError (''No provider found for token: '' @ getTokenName t)"

text \<open>
  The \<^verbatim>\<open>factory\<close> closure of a provider record, by the provider shape it was created from in
  \<^verbatim>\<open>createProviderRecord\<close>. The constructor dependencies of a class (token and optional flag
  per parameter) are what \<^verbatim>\<open>getConstructorDependencies\<close> reads from the class metadata. A
  user factory \<^verbatim>\<open>useFactory\<close> is a function of the resolved arguments and of the allocation
  counter, from which a factory that builds a new object takes the object's identity.
\<close>

datatype factory =
    ClassFactory string "(token \<times> bool) list"
  | ValueFactory val
  | UserFactory "token list" "val list \<Rightarrow> nat \<Rightarrow> val"
  | ExistingFactory token
  | SelfFactory nat

record provider_record =
  ptoken :: token
  pscope :: scope
  factory :: factory
  pinstance :: val
  isResolved :: bool

record container =
  providers :: "token \<rightharpoonup> provider_record"
  parent :: "nat option"
  resolutionStack :: "token list"
  scopedInstances :: "token \<rightharpoonup> val"

text \<open>
  All containers of the program, by identity, with the number of containers created so far,
  the object allocation counter and the log of \<^verbatim>\<open>record.factory\<close> invocations.
\<close>

record world =
  containers :: "nat \<Rightarrow> container"
  count :: nat
  nextId :: nat
  factoryCalls :: "token list"

definition containerToken :: token where
  "containerToken = ClassToken ''Container''"

text \<open>The constructor: the container registers itself under the token \<^verbatim>\<open>Container\<close>.\<close>

definition newContainer :: "nat \<Rightarrow> nat option \<Rightarrow> container" where
  "newContainer self par =
     \<lparr>providers = [containerToken \<mapsto>
         \<lparr>ptoken = containerToken, pscope = SINGLETON, factory = SelfFactory self,
          pinstance = ContainerRef self, isResolved = True\<rparr>],
      parent = par, resolutionStack = [], scopedInstances = Map.empty\<rparr>"

definition initialWorld :: world where
  "initialWorld =
     \<lparr>containers = (\<lambda>_. newContainer 0 None), count = 1, nextId = 0, factoryCalls = []\<rparr>"

definition createChild :: "nat \<Rightarrow> world \<Rightarrow> nat \<times> world" where
  "createChild c w =
     (count w, w\<lparr>containers := (containers w)(count w := newContainer (count w) (Some c)),
                 count := Suc (count w)\<rparr>)"

definition createRequestScope :: "nat \<Rightarrow> world \<Rightarrow> nat \<times> world" where
  "createRequestScope c w =
     (case createChild c w of
        (child, w') \<Rightarrow>
          (child, w'\<lparr>containers := (containers w')
                      (child := (containers w' child)\<lparr>scopedInstances := Map.empty\<rparr>)\<rparr>))"

subsection \<open>Provider registration\<close>

record class_decl =
  cname :: string
  cdeps :: "(token \<times> bool) list"
  cscope :: "scope option"   \<comment> \<open>the scope metadata written by \<^verbatim>\<open>@Injectable\<close>, if any\<close>

datatype provider =
    TypeProvider class_decl
  | ClassProvider token class_decl "scope option"
  | ValueProvider token val
  | FactoryProvider token "val list \<Rightarrow> nat \<Rightarrow> val" "token list" "scope option"
  | ExistingProvider token token

fun getProviderToken :: "provider \<Rightarrow> token" where
  "getProviderToken (TypeProvider cls) = ClassToken (cname cls)"
| "getProviderToken (ClassProvider t _ _) = t"
| "getProviderToken (ValueProvider t _) = t"
| "getProviderToken (FactoryProvider t _ _ _) = t"
| "getProviderToken (ExistingProvider t _) = t"

definition orSingleton :: "scope option \<Rightarrow> scope" where
  "orSingleton s = (case s of None \<Rightarrow> SINGLETON | Some x \<Rightarrow> x)"

text \<open>
  \<^verbatim>\<open>createProviderRecord\<close>. A value provider is recognised by
  \<^verbatim>\<open>provider.useValue !== undefined\<close>, so one whose value is \<^verbatim>\<open>undefined\<close> matches no shape.
\<close>

fun createProviderRecord :: "provider \<Rightarrow> container_error + provider_record" where
  "createProviderRecord (TypeProvider cls) =
     Inr \<lparr>ptoken = ClassToken (cname cls), pscope = orSingleton (cscope cls),
          factory = ClassFactory (cname cls) (cdeps cls), pinstance = Undefined, isResolved = False\<rparr>"
| "createProviderRecord (ClassProvider t cls sc) =
     Inr \<lparr>ptoken = t, pscope = orSingleton sc,
          factory = ClassFactory (cname cls) (cdeps cls), pinstance = Undefined, isResolved = False\<rparr>"
| "createProviderRecord (ValueProvider t v) =
     (if v = Undefined then Inl (ContainerError ''Invalid provider'')
      else Inr \<lparr>ptoken = t, pscope = SINGLETON, factory = ValueFactory v,
                pinstance = v, isResolved = True\<rparr>)"
| "createProviderRecord (FactoryProvider t f inject sc) =
     Inr \<lparr>ptoken = t, pscope = orSingleton sc,
          factory = UserFactory inject f, pinstance = Undefined, isResolved = False\<rparr>"
| "createProviderRecord (ExistingProvider t existing) =
     Inr \<lparr>ptoken = t, pscope = SINGLETON,
          factory = ExistingFactory existing, pinstance = Undefined, isResolved = False\<rparr>"

definition registerProvider :: "nat \<Rightarrow> provider \<Rightarrow> world \<Rightarrow> container_error + world" where
  "registerProvider c provider w =
     (case createProviderRecord provider of
        Inl e \<Rightarrow> Inl e
      | Inr rec \<Rightarrow>
          Inr (w\<lparr>containers := (containers w)
                  (c := (containers w c)\<lparr>providers :=
                          (providers (containers w c))(getProviderToken provider \<mapsto> rec)\<rparr>)\<rparr>))"

subsection \<open>Resolution\<close>

text \<open>
  \<^verbatim>\<open>getProviderRecord\<close> walks up the parent chain and yields the record together with the
  container that owns it. A chain built by \<^verbatim>\<open>createChild\<close> is never longer than the number of
  containers, which bounds the walk.
\<close>

fun getProviderRecordN :: "nat \<Rightarrow> world \<Rightarrow> nat \<Rightarrow> token \<Rightarrow> (nat \<times> provider_record) option" where
  "getProviderRecordN 0 w c t = None"
| "getProviderRecordN (Suc k) w c t =
     (case providers (containers w c) t of
        Some r \<Rightarrow> Some (c, r)
      | None \<Rightarrow> (case parent (containers w c) of
                   None \<Rightarrow> None
                 | Some p \<Rightarrow> getProviderRecordN k w p t))"

definition getProviderRecord :: "world \<Rightarrow> nat \<Rightarrow> token \<Rightarrow> (nat \<times> provider_record) option" where
  "getProviderRecord w c t = getProviderRecordN (count w) w c t"

definition pushStack :: "nat \<Rightarrow> token \<Rightarrow> world \<Rightarrow> world" where
  "pushStack c t w =
     w\<lparr>containers := (containers w)
         (c := (containers w c)\<lparr>resolutionStack := resolutionStack (containers w c) @ [t]\<rparr>)\<rparr>"

definition popStack :: "nat \<Rightarrow> world \<Rightarrow> world" where
  "popStack c w =
     w\<lparr>containers := (containers w)
         (c := (containers w c)\<lparr>resolutionStack := butlast (resolutionStack (containers w c))\<rparr>)\<rparr>"

definition noteCall :: "token \<Rightarrow> world \<Rightarrow> world" where
  "noteCall t w = w\<lparr>factoryCalls := factoryCalls w @ [t]\<rparr>"

text \<open>\<^verbatim>\<open>record.instance = instance; record.isResolved = true\<close> on the record of \<open>t\<close> in \<open>owner\<close>.\<close>

definition storeInstance :: "nat \<Rightarrow> token \<Rightarrow> val \<Rightarrow> world \<Rightarrow> world" where
  "storeInstance owner t v w =
     w\<lparr>containers := (containers w)
         (owner := (containers w owner)\<lparr>providers :=
            (case providers (containers w owner) t of
               None \<Rightarrow> providers (containers w owner)
             | Some r \<Rightarrow> (providers (containers w owner))
                           (t \<mapsto> r\<lparr>pinstance := v, isResolved := True\<rparr>))\<rparr>)\<rparr>"

definition storeScoped :: "nat \<Rightarrow> token \<Rightarrow> val \<Rightarrow> world \<Rightarrow> world" where
  "storeScoped c t v w =
     w\<lparr>containers := (containers w)
         (c := (containers w c)\<lparr>scopedInstances := (scopedInstances (containers w c))(t \<mapsto> v)\<rparr>)\<rparr>"

definition asyncProviderError :: "token \<Rightarrow> container_error" where
  "asyncProviderError t =
     ContainerError (''Cannot use resolve() for async provider '' @ getTokenName t
                     @ ''. Use resolveAsync() instead.'')"

text \<open>
  \<^verbatim>\<open>resolveInternal\<close> and the methods it calls are mutually recursive. The methods below
  take the recursive entry point \<^verbatim>\<open>container.resolveInternal\<close> as their first argument
  \<open>ri\<close>; \<open>resolveInternal\<close> then ties the knot. \<open>resolveArgs\<close> is the
  \<^verbatim>\<open>dependencies.map\<close> of \<^verbatim>\<open>instantiateClass\<close>, which calls \<^verbatim>\<open>resolveInternal\<close>;
  \<open>resolveInjected\<close> is the \<^verbatim>\<open>inject.map\<close> of a factory provider, which calls the
  synchronous \<^verbatim>\<open>resolve\<close>. The \<^verbatim>\<open>finally\<close> blocks pop the stack on every path.
\<close>

type_synonym resolver = "nat \<Rightarrow> token \<Rightarrow> bool \<Rightarrow> world \<Rightarrow> (container_error + val) \<times> world"

fun resolveArgs :: "resolver \<Rightarrow> nat \<Rightarrow> (token \<times> bool) list \<Rightarrow> world
      \<Rightarrow> (container_error + val list) \<times> world" where
  "resolveArgs ri c [] w = (Inr [], w)"
| "resolveArgs ri c (d # ds) w =
     (case ri c (fst d) (snd d) w of
        (Inl e, w') \<Rightarrow> (Inl e, w')
      | (Inr v, w') \<Rightarrow>
          (case resolveArgs ri c ds w' of
             (Inl e, w'') \<Rightarrow> (Inl e, w'')
           | (Inr vs, w'') \<Rightarrow> (Inr (v # vs), w'')))"

fun resolveInjected :: "resolver \<Rightarrow> nat \<Rightarrow> token list \<Rightarrow> world
      \<Rightarrow> (container_error + val list) \<times> world" where
  "resolveInjected ri c [] w = (Inr [], w)"
| "resolveInjected ri c (d # ds) w =
     (case ri c d False w of
        (Inl e, w') \<Rightarrow> (Inl e, w')
      | (Inr v, w') \<Rightarrow>
          if isPromise v then (Inl (asyncProviderError d), w')
          else (case resolveInjected ri c ds w' of
                  (Inl e, w'') \<Rightarrow> (Inl e, w'')
                | (Inr vs, w'') \<Rightarrow> (Inr (v # vs), w'')))"

text \<open>\<^verbatim>\<open>record.factory(this)\<close>, by the shape the record was created from.\<close>

fun runFactory :: "resolver \<Rightarrow> nat \<Rightarrow> factory \<Rightarrow> world \<Rightarrow> (container_error + val) \<times> world" where
  "runFactory ri c (ClassFactory cls deps) w =
     (case resolveArgs ri c deps w of
        (Inl e, w') \<Rightarrow> (Inl e, w')
      | (Inr args, w') \<Rightarrow>
          if \<exists>a \<in> set args. isPromise a then (Inr (PendingNew cls args), w')
          else (Inr (Obj (nextId w')), w'\<lparr>nextId := Suc (nextId w')\<rparr>))"
| "runFactory ri c (ValueFactory v) w = (Inr v, w)"
| "runFactory ri c (UserFactory inject f) w =
     (case resolveInjected ri c inject w of
        (Inl e, w') \<Rightarrow> (Inl e, w')
      | (Inr args, w') \<Rightarrow> (Inr (f args (nextId w')), w'\<lparr>nextId := Suc (nextId w')\<rparr>))"
| "runFactory ri c (ExistingFactory existing) w =
     (case ri c existing False w of
        (Inl e, w') \<Rightarrow> (Inl e, w')
      | (Inr v, w') \<Rightarrow> if isPromise v then (Inl (asyncProviderError existing), w') else (Inr v, w'))"
| "runFactory ri c (SelfFactory self) w = (Inr (ContainerRef self), w)"

definition resolveSingleton :: "resolver \<Rightarrow> nat \<Rightarrow> token \<Rightarrow> nat \<Rightarrow> provider_record \<Rightarrow> world
      \<Rightarrow> (container_error + val) \<times> world" where
  "resolveSingleton ri c t owner rec w =
     (if isResolved rec \<and> pinstance rec \<noteq> Undefined then (Inr (pinstance rec), w)
      else case runFactory ri c (factory rec) (noteCall (ptoken rec) (pushStack c t w)) of
             (Inl e, w') \<Rightarrow> (Inl e, popStack c w')
           | (Inr inst, w') \<Rightarrow>
               if isPromise inst then (Inr (ThenCache inst), popStack c w')
               else (Inr inst, popStack c (storeInstance owner t inst w')))"

definition resolveRequestScoped :: "resolver \<Rightarrow> nat \<Rightarrow> token \<Rightarrow> provider_record \<Rightarrow> world
      \<Rightarrow> (container_error + val) \<times> world" where
  "resolveRequestScoped ri c t rec w =
     (case scopedInstances (containers w c) t of
        Some v \<Rightarrow> (Inr v, w)
      | None \<Rightarrow>
          (case runFactory ri c (factory rec) (noteCall (ptoken rec) (pushStack c t w)) of
             (Inl e, w') \<Rightarrow> (Inl e, popStack c w')
           | (Inr inst, w') \<Rightarrow>
               if isPromise inst then (Inr (ThenCache inst), popStack c w')
               else (Inr inst, popStack c (storeScoped c t inst w'))))"

definition resolveTransient :: "resolver \<Rightarrow> nat \<Rightarrow> provider_record \<Rightarrow> world
      \<Rightarrow> (container_error + val) \<times> world" where
  "resolveTransient ri c rec w = runFactory ri c (factory rec) (noteCall (ptoken rec) w)"

text \<open>
  The argument of \<open>resolveInternal\<close> bounds the nesting depth of its calls; when it is used
  up, the engine's \<^verbatim>\<open>RangeError\<close> (maximum call stack size exceeded) is raised.
\<close>

primrec resolveInternal :: "nat \<Rightarrow> resolver" where
  "resolveInternal 0 = (\<lambda>c t optional w. (Inl RangeError, w))"
| "resolveInternal (Suc n) = (\<lambda>c t optional w.
     if t \<in> set (resolutionStack (containers w c))
     then (Inl (circularDependencyError (resolutionStack (containers w c) @ [t])), w)
     else (case getProviderRecord w c t of
             None \<Rightarrow> if optional then (Inr Undefined, w) else (Inl (tokenNotFoundError t), w)
           | Some (owner, rec) \<Rightarrow>
               (case pscope rec of
                  SINGLETON \<Rightarrow> resolveSingleton (resolveInternal n) c t owner rec w
                | REQUEST \<Rightarrow> resolveRequestScoped (resolveInternal n) c t rec w
                | TRANSIENT \<Rightarrow> resolveTransient (resolveInternal n) c rec w)))"

text \<open>The two public entry points.\<close>

definition resolve :: "nat \<Rightarrow> nat \<Rightarrow> token \<Rightarrow> bool \<Rightarrow> world \<Rightarrow> (container_error + val) \<times> world" where
  "resolve n c t optional w =
     (case resolveInternal n c t optional w of
        (Inl e, w') \<Rightarrow> (Inl e, w')
      | (Inr v, w') \<Rightarrow> if isPromise v then (Inl (asyncProviderError t), w') else (Inr v, w'))"

text \<open>
  \<^verbatim>\<open>resolveAsync\<close> is an \<^verbatim>\<open>async\<close> function: \<open>Inl e\<close> is a promise rejected with \<open>e\<close>,
  \<open>Inr v\<close> a promise resolved with \<open>v\<close> (which it follows when \<open>v\<close> is itself a promise).
\<close>

definition resolveAsync :: "nat \<Rightarrow> nat \<Rightarrow> token \<Rightarrow> bool \<Rightarrow> world \<Rightarrow> (container_error + val) \<times> world" where
  "resolveAsync n c t optional w = resolveInternal n c t optional w"

text \<open>
  \<^verbatim>\<open>registerMany\<close>: the providers are registered one after the other (\<open>registerProvider\<close>
  is the container's \<^verbatim>\<open>register\<close>); the first invalid provider ends the loop with its error.
\<close>

fun registerMany :: "nat \<Rightarrow> provider list \<Rightarrow> world \<Rightarrow> container_error + world" where
  "registerMany c [] w = Inr w"
| "registerMany c (p # ps) w =
     (case registerProvider c p w of
        Inl e \<Rightarrow> Inl e
      | Inr w' \<Rightarrow> registerMany c ps w')"

subsection \<open>What a resolution leaves unchanged\<close>

text \<open>
  \<open>sameShape\<close> relates a provider record to a later state of itself: token, scope and
  factory are fixed at registration, only the cached instance changes. \<open>frame c w w'\<close>
  says what a resolution on container \<open>c\<close> that leads from \<open>w\<close> to \<open>w'\<close> leaves as it
  was: the containers and their parents, every resolution stack, the scoped instances of
  the other containers and the shape of every provider record; objects are only allocated
  and the log of factory calls only grows.
\<close>

definition sameShape :: "provider_record \<Rightarrow> provider_record \<Rightarrow> bool" where
  "sameShape r r' \<longleftrightarrow> ptoken r' = ptoken r \<and> pscope r' = pscope r \<and> factory r' = factory r"

definition frame :: "nat \<Rightarrow> world \<Rightarrow> world \<Rightarrow> bool" where
  "frame c w w' \<longleftrightarrow>
     count w' = count w
   \<and> nextId w \<le> nextId w'
   \<and> (\<exists>ext. factoryCalls w' = factoryCalls w @ ext)
   \<and> (\<forall>d. parent (containers w' d) = parent (containers w d)
          \<and> resolutionStack (containers w' d) = resolutionStack (containers w d)
          \<and> (d \<noteq> c \<longrightarrow> scopedInstances (containers w' d) = scopedInstances (containers w d))
          \<and> (\<forall>t. rel_option sameShape (providers (containers w d) t)
                                      (providers (containers w' d) t)))"


subsection \<open>Example providers\<close>

text \<open>
  The root container after \<^verbatim>\<open>registerMany(providers)\<close> (unchanged when a provider is
  invalid), some user factories and a class without constructor dependencies.
\<close>

definition registered :: "provider list \<Rightarrow> world" where
  "registered ps = (case registerMany 0 ps initialWorld of Inr w \<Rightarrow> w | Inl e \<Rightarrow> initialWorld)"

definition alwaysUndefined :: "val list \<Rightarrow> nat \<Rightarrow> val" where
  "alwaysUndefined args k = Undefined"

definition undefinedOnce :: "val list \<Rightarrow> nat \<Rightarrow> val" where
  "undefinedOnce args k = (if k = 0 then Undefined else Obj k)"

definition constantX :: "val list \<Rightarrow> nat \<Rightarrow> val" where
  "constantX args k = Prim ''x''"

definition plainClass :: "string \<Rightarrow> class_decl" where
  "plainClass name = \<lparr>cname = name, cdeps = [], cscope = None\<rparr>"

text \<open>
  A root container with a singleton, a transient and a request-scoped class, and the same
  after two calls of \<^verbatim>\<open>createRequestScope()\<close> on the root, which create the containers 1
  and 2.
\<close>

definition exampleWorld :: world where
  "exampleWorld = registered
     [ClassProvider (StringToken ''S'') (plainClass ''S'') None,
      ClassProvider (StringToken ''T'') (plainClass ''T'') (Some TRANSIENT),
      ClassProvider (StringToken ''R'') (plainClass ''R'') (Some REQUEST)]"

definition exampleScopes :: world where
  "exampleScopes = snd (createRequestScope 0 (snd (createRequestScope 0 exampleWorld)))"


section \<open>Pipeline: guard short-circuit and interceptor nesting\<close>

lemma runGuards_allow:
  "\<forall>x\<in>set pre. canActivate x ctx = Answers True \<Longrightarrow>
   runGuards ctx (pre @ rest) tr = runGuards ctx rest (tr @ map gname pre)"
  by (induction pre arbitrary: tr) auto

lemma buildChain_recording:
  "k \<le> length ns \<Longrightarrow> k < n \<Longrightarrow>
   buildChain n (map recording ns) hres \<lparr>chainIndex = int k - 1, trace = tr\<rparr> =
     Some (Some hres, \<lparr>chainIndex = - 1,
        trace = tr @ map (\<lambda>x. x @ ''-before'') (rev (take k ns)) @ [''handler'']
                   @ map (\<lambda>x. x @ ''-after'') (take k ns)\<rparr>)"
proof (induction k arbitrary: n tr)
  case 0
  then obtain m where n: "n = Suc m" by (cases n) auto
  show ?case by (simp add: n)
next
  case (Suc k)
  then obtain m where n: "n = Suc m" by (cases n) auto
  from Suc.prems n have km: "k < m" and kl: "k \<le> length ns" and kl': "k < length ns" by auto
  have ih: "buildChain m (map recording ns) hres \<lparr>chainIndex = int k - 1, trace = tr'\<rparr> =
     Some (Some hres, \<lparr>chainIndex = - 1,
        trace = tr' @ map (\<lambda>x. x @ ''-before'') (rev (take k ns)) @ [''handler'']
                   @ map (\<lambda>x. x @ ''-after'') (take k ns)\<rparr>)" for tr'
    using Suc.IH[OF kl km] .
  have r: "map recording ns ! k =
      [Emit (ns ! k @ ''-before''), Proceed, Emit (ns ! k @ ''-after'')]"
    using kl' by (simp add: recording_def)
  show ?case
    using kl' by (simp add: n r ih take_Suc_conv_app_nth del: nth_map)
qed

text \<open>
  C8. Guards run in order, global guards before per-route guards. When a guard answers
  false after all earlier guards answered true, the pipeline ends with
  \<^verbatim>\<open>HttpException('Forbidden', 403)\<close>, and the trace holds exactly the guards up to and
  including the rejecting one: no later guard, no interceptor and no handler was invoked.
\<close>

theorem guard_short_circuit:
  assumes "globalGuards @ routeGuards = pre @ g # post"
    and "\<forall>x\<in>set pre. canActivate x ctx = Answers True"
    and "canActivate g ctx = Answers False"
  shows "executePipeline fuel ctx globalGuards routeGuards gis ris hres =
           Some (Inl (HttpError ''Forbidden'' 403), map gname pre @ [gname g])"
  using assms by (simp add: executePipeline_def runGuards_allow)

theorem guard_short_circuit_witness:
  "executePipeline 0 ()
      [\<lparr>gname = ''first'', canActivate = (\<lambda>_. Answers False)\<rparr>]
      [\<lparr>gname = ''second'', canActivate = (\<lambda>_. Answers True)\<rparr>]
      [recording ''A''] [] ''ok''
    = Some (Inl (HttpError ''Forbidden'' 403), [''first''])"
  using guard_short_circuit [of
      "[\<lparr>gname = ''first'', canActivate = (\<lambda>_. Answers False)\<rparr>]"
      "[\<lparr>gname = ''second'', canActivate = (\<lambda>_. Answers True)\<rparr>]"
      "[]" "\<lparr>gname = ''first'', canActivate = (\<lambda>_. Answers False)\<rparr>"
      "[\<lparr>gname = ''second'', canActivate = (\<lambda>_. Answers True)\<rparr>]"
      "()" 0 "[recording ''A'']" "[]" "''ok''"]
  by simp

text \<open>
  C1, as stated, fails: with the global interceptor A and the per-route interceptor B the
  chain starts at the last index, so B is entered first and left last.
\<close>

theorem interceptor_order_counterexample:
  "executePipeline 3 () [] [] [recording ''A''] [recording ''B''] ''ok''
     = Some (Inr (Some ''ok''),
         [''B-before'', ''A-before'', ''handler'', ''A-after'', ''B-after''])
   \<and> executePipeline 3 () [] [] [recording ''A''] [recording ''B''] ''ok''
     \<noteq> Some (Inr (Some ''ok''),
         [''A-before'', ''B-before'', ''handler'', ''B-after'', ''A-after''])"
  by (simp add: executePipeline_def recording_def numeral_3_eq_3)

text \<open>
  C1, amended. For recording interceptors registered in the order \<open>gs @ rs\<close> (global
  ones first) and guards that all admit the request, the last-registered interceptor is the
  outermost wrapper: the before-events appear in reverse registration order, then the
  handler, then the after-events in registration order. The handler's result is returned.
\<close>

theorem interceptor_nesting:
  assumes "\<forall>x\<in>set (globalGuards @ routeGuards). canActivate x ctx = Answers True"
    and "length (gs @ rs) < fuel"
  shows "executePipeline fuel ctx globalGuards routeGuards (map recording gs) (map recording rs) hres =
           Some (Inr (Some hres),
             map gname (globalGuards @ routeGuards)
             @ map (\<lambda>x. x @ ''-before'') (rev (gs @ rs)) @ [''handler'']
             @ map (\<lambda>x. x @ ''-after'') (gs @ rs))"
proof -
  have g: "runGuards ctx (globalGuards @ routeGuards) [] =
             (Inr (), map gname (globalGuards @ routeGuards))"
    using runGuards_allow [OF assms(1), of "[]" "[]"] by simp
  have c: "buildChain fuel (map recording (gs @ rs)) hres
             \<lparr>chainIndex = int (length (gs @ rs)) - 1,
              trace = map gname (globalGuards @ routeGuards)\<rparr> =
           Some (Some hres, \<lparr>chainIndex = - 1,
             trace = map gname (globalGuards @ routeGuards)
               @ map (\<lambda>x. x @ ''-before'') (rev (take (length (gs @ rs)) (gs @ rs)))
               @ [''handler'']
               @ map (\<lambda>x. x @ ''-after'') (take (length (gs @ rs)) (gs @ rs))\<rparr>)"
    using assms(2) by (intro buildChain_recording) simp_all
  show ?thesis
    unfolding executePipeline_def Let_def g using c by simp
qed

theorem interceptor_nesting_witness:
  "executePipeline 3 ()
      [\<lparr>gname = ''guard'', canActivate = (\<lambda>_. Answers True)\<rparr>] []
      (map recording [''A'']) (map recording [''B'']) ''ok''
    = Some (Inr (Some ''ok''),
        [''guard'', ''B-before'', ''A-before'', ''handler'', ''A-after'', ''B-after''])"
  using interceptor_nesting [of
      "[\<lparr>gname = ''guard'', canActivate = (\<lambda>_. Answers True)\<rparr>]" "[]" "()"
      "[''A'']" "[''B'']" 3 "''ok''"]
  by simp


section \<open>Error responses\<close>

lemma map_of_spread:
  "map_of (spread t src) = map_of t ++ map_of (rev src)"
  unfolding spread_def
proof (induction src arbitrary: t)
  case Nil then show ?case by simp
next
  case (Cons a src)
  obtain k v where a: "a = (k, v)" by (cases a)
  show ?case
    by (auto simp add: a Cons.IH update_conv' fun_eq_iff map_add_def split: option.splits)
qed

lemma distinct_spread: "distinct (map fst t) \<Longrightarrow> distinct (map fst (spread t src))"
  unfolding spread_def
proof (induction src arbitrary: t)
  case Nil then show ?case by simp
next
  case (Cons a src)
  obtain k v where a: "a = (k, v)" by (cases a)
  show ?case using Cons.prems by (simp add: a Cons.IH distinct_update)
qed

lemma stringified_undefined [simp]: "stringified v = JUndefined \<longleftrightarrow> v = JUndefined"
  by (cases v) simp_all

lemma stringifiedObject_Cons:
  "stringifiedObject ((a, v) # ps) =
      (if v = JUndefined then stringifiedObject ps else (a, stringified v) # stringifiedObject ps)"
  by (simp add: stringifiedObject_def)

lemma stringifiedObject_Nil [simp]: "stringifiedObject [] = []"
  by (simp add: stringifiedObject_def)

lemma map_of_stringifiedObject:
  "distinct (map fst ps) \<Longrightarrow>
   map_of (stringifiedObject ps) k =
     (case map_of ps k of
        None \<Rightarrow> None
      | Some v \<Rightarrow> if v = JUndefined then None else Some (stringified v))"
proof (induction ps)
  case Nil
  then show ?case by simp
next
  case (Cons p ps)
  obtain a v where p: "p = (a, v)" by (cases p)
  from Cons.prems have d: "distinct (map fst ps)" and na: "a \<notin> fst ` set ps" by (simp_all add: p)
  have ih: "map_of (stringifiedObject ps) k =
     (case map_of ps k of
        None \<Rightarrow> None
      | Some v \<Rightarrow> if v = JUndefined then None else Some (stringified v))"
    using Cons.IH [OF d] .
  have none: "map_of ps a = None" using na by (simp add: map_of_eq_None_iff)
  have "map_of (stringifiedObject ((a, v) # ps)) k =
     (case map_of ((a, v) # ps) k of
        None \<Rightarrow> None
      | Some v \<Rightarrow> if v = JUndefined then None else Some (stringified v))"
  proof (cases "k = a")
    case True
    then show ?thesis using ih none by (simp add: stringifiedObject_Cons)
  next
    case False
    then show ?thesis using ih by (simp add: stringifiedObject_Cons)
  qed
  then show ?case by (simp only: p)
qed

lemma keys_stringifiedObject:
  "distinct (map fst ps) \<Longrightarrow>
   k \<in> fst ` set (stringifiedObject ps) \<longleftrightarrow> (\<exists>v. map_of ps k = Some v \<and> v \<noteq> JUndefined)"
proof -
  assume d: "distinct (map fst ps)"
  have "k \<in> fst ` set (stringifiedObject ps) \<longleftrightarrow> map_of (stringifiedObject ps) k \<noteq> None"
    by (simp add: map_of_eq_None_iff)
  then show ?thesis
    by (simp add: map_of_stringifiedObject [OF d] split: option.splits)
qed


lemma keys_update: "fst ` set (AList.update k v ps) = insert k (fst ` set ps)"
  using dom_update [of k v ps] by (simp add: dom_map_of_conv_image_fst)

lemma keys_spread: "fst ` set (spread t src) = fst ` set t \<union> fst ` set src"
proof -
  have "dom (map_of (spread t src)) = dom (map_of t) \<union> dom (map_of (rev src))"
    by (simp add: map_of_spread Un_commute)
  then show ?thesis by (simp add: dom_map_of_conv_image_fst)
qed

lemma rev_none: "k \<notin> fst ` set src \<Longrightarrow> map_of (rev src) k = None"
  by (simp add: map_of_eq_None_iff)

text \<open>The body written for an object-shaped response, without and with the stack.\<close>

lemma object_body:
  "map_of (stringifiedObject (spread [(''statusCode'', JNum s)] ob)) k =
     (case ([''statusCode'' \<mapsto> JNum s] ++ property ob) k of
        None \<Rightarrow> None
      | Some v \<Rightarrow> if v = JUndefined then None else Some (stringified v))"
  by (simp add: map_of_stringifiedObject distinct_spread map_of_spread property_def)

lemma object_body_stack:
  "map_of (stringifiedObject
        (AList.update ''stack'' (JStr t) (spread [(''statusCode'', JNum s)] ob))) k =
     (case (([''statusCode'' \<mapsto> JNum s] ++ property ob)(''stack'' \<mapsto> JStr t)) k of
        None \<Rightarrow> None
      | Some v \<Rightarrow> if v = JUndefined then None else Some (stringified v))"
  by (simp add: map_of_stringifiedObject distinct_spread distinct_update map_of_spread
        update_conv' property_def)

lemma in_keys_iff: "k \<in> fst ` set ps \<longleftrightarrow> map_of ps k \<noteq> None"
  by (simp add: map_of_eq_None_iff)


lemmas response_defs = handleException_def errorToResponse_def toHttpException_def
  toResponse_def newResponse_def nullBodyStatus_def stringifiedObject_def isDev_def truthy_def
  spread_def


text \<open>
  C9, as stated, fails for an \<^verbatim>\<open>HttpException\<close> with an object-shaped response that has no
  \<^verbatim>\<open>message\<close> property, such as \<^verbatim>\<open>new HttpException({ error: 'x' }, 400)\<close>: the body is
  \<^verbatim>\<open>{"statusCode":400,"error":"x"}\<close>, with no message field.
\<close>

theorem error_response_counterexample:
  "handleException [] None None
       (IsHttpException \<lparr>status = 400, response = RObject [(''error'', JStr ''x'')],
                         stack = None, retryAfter = None\<rparr>)
     = Inr \<lparr>rstatus = 400, rheaders = [(''Content-Type'', HText ''application/json'')],
            rbody = [(''statusCode'', JNum 400), (''error'', JStr ''x'')]\<rparr>
   \<and> ''message'' \<notin> fst ` set [(''statusCode'', JNum 400), (''error'', JStr ''x'')]"
  by (simp add: response_defs)


text \<open>
  C9, amended. Take an error that reaches the top-level handler, that no global filter
  turns into a response, and whose status is one that a response with a body can carry (in
  the range 200 to 599 and not a null-body status; every error that is not an
  \<^verbatim>\<open>HttpException\<close> has status 500). Then a response with that status is produced and its body
  is a JSON object. When the exception's response is a string, \<^verbatim>\<open>statusCode\<close> is the numeric
  status and \<^verbatim>\<open>message\<close> is that string. When it is an object, the body has a \<^verbatim>\<open>message\<close>
  field exactly when the object has a \<^verbatim>\<open>message\<close> property that is not \<^verbatim>\<open>undefined\<close>, and
  \<^verbatim>\<open>statusCode\<close> is the numeric status when the object has no \<^verbatim>\<open>statusCode\<close> of its own;
  the other properties of the object are written with their values, except those that are
  \<^verbatim>\<open>undefined\<close>. A
  \<^verbatim>\<open>stack\<close> field is added only when \<^verbatim>\<open>ENVIRONMENT === 'development'\<close> (any other \<^verbatim>\<open>stack\<close>
  field is the object's own), and is added then whenever the exception has a stack.
\<close>

theorem error_response_shape:
  assumes nf: "tryFilters globalFilters error = None"
    and lo: "200 \<le> status (toHttpException engineStack error)"
    and hi: "status (toHttpException engineStack error) \<le> 599"
    and nb: "\<not> nullBodyStatus (status (toHttpException engineStack error))"
  shows "\<exists>r. handleException globalFilters env engineStack error = Inr r
     \<and> rstatus r = status (toHttpException engineStack error)
     \<and> map_of (rheaders r) ''Content-Type'' = Some (HText ''application/json'')
     \<and> (\<forall>m. response (toHttpException engineStack error) = RString m \<longrightarrow>
          map_of (rbody r) ''statusCode'' = Some (JNum (status (toHttpException engineStack error)))
        \<and> map_of (rbody r) ''message'' = Some (JStr m)
        \<and> rbody r =
            [(''statusCode'', JNum (status (toHttpException engineStack error))),
             (''message'', JStr m)]
            @ (if isDev env \<and> truthy (stack (toHttpException engineStack error))
               then [(''stack'', JStr (the (stack (toHttpException engineStack error))))]
               else []))
     \<and> (\<forall>ob. response (toHttpException engineStack error) = RObject ob \<longrightarrow>
          (''message'' \<in> fst ` set (rbody r)
             \<longleftrightarrow> (\<exists>v. property ob ''message'' = Some v \<and> v \<noteq> JUndefined))
        \<and> (''statusCode'' \<notin> fst ` set ob \<longrightarrow>
              map_of (rbody r) ''statusCode''
                = Some (JNum (status (toHttpException engineStack error))))
        \<and> (\<forall>k v. k \<noteq> ''stack'' \<and> property ob k = Some v \<and> v \<noteq> JUndefined
              \<longrightarrow> map_of (rbody r) k = Some (stringified v))
        \<and> (\<forall>k. k \<noteq> ''stack'' \<and> k \<noteq> ''statusCode''
                \<and> (property ob k = None \<or> property ob k = Some JUndefined)
              \<longrightarrow> map_of (rbody r) k = None))
     \<and> (''stack'' \<in> fst ` set (rbody r) \<longrightarrow>
          isDev env \<or> (\<exists>ob. response (toHttpException engineStack error) = RObject ob
                            \<and> ''stack'' \<in> fst ` set ob))
     \<and> (isDev env \<and> truthy (stack (toHttpException engineStack error)) \<longrightarrow>
          map_of (rbody r) ''stack''
            = Some (JStr (the (stack (toHttpException engineStack error)))))"
proof -
  define e where "e = toHttpException engineStack error"
  have st: "\<not> (status e < 200 \<or> 599 < status e)" "\<not> nullBodyStatus (status e)"
    using lo hi nb by (simp_all add: e_def)
  show ?thesis
    unfolding e_def [symmetric]
  proof (cases "response e")
    case (RString m)
    then show "\<exists>r. handleException globalFilters env engineStack error = Inr r
     \<and> rstatus r = status e
     \<and> map_of (rheaders r) ''Content-Type'' = Some (HText ''application/json'')
     \<and> (\<forall>m. response e = RString m \<longrightarrow>
          map_of (rbody r) ''statusCode'' = Some (JNum (status e))
        \<and> map_of (rbody r) ''message'' = Some (JStr m)
        \<and> rbody r =
            [(''statusCode'', JNum (status e)), (''message'', JStr m)]
            @ (if isDev env \<and> truthy (stack e)
               then [(''stack'', JStr (the (stack e)))]
               else []))
     \<and> (\<forall>ob. response e = RObject ob \<longrightarrow>
          (''message'' \<in> fst ` set (rbody r)
             \<longleftrightarrow> (\<exists>v. property ob ''message'' = Some v \<and> v \<noteq> JUndefined))
        \<and> (''statusCode'' \<notin> fst ` set ob \<longrightarrow>
              map_of (rbody r) ''statusCode'' = Some (JNum (status e)))
        \<and> (\<forall>k v. k \<noteq> ''stack'' \<and> property ob k = Some v \<and> v \<noteq> JUndefined
              \<longrightarrow> map_of (rbody r) k = Some (stringified v))
        \<and> (\<forall>k. k \<noteq> ''stack'' \<and> k \<noteq> ''statusCode''
                \<and> (property ob k = None \<or> property ob k = Some JUndefined)
              \<longrightarrow> map_of (rbody r) k = None))
     \<and> (''stack'' \<in> fst ` set (rbody r) \<longrightarrow>
          isDev env \<or> (\<exists>ob. response e = RObject ob \<and> ''stack'' \<in> fst ` set ob))
     \<and> (isDev env \<and> truthy (stack e) \<longrightarrow>
          map_of (rbody r) ''stack'' = Some (JStr (the (stack e))))"
      using nf st
      by (cases "retryAfter e")
         (simp_all add: handleException_def errorToResponse_def toResponse_def newResponse_def
            stringifiedObject_def Let_def update_conv' e_def [symmetric])
  next
    case (RObject ob)
    show "\<exists>r. handleException globalFilters env engineStack error = Inr r
     \<and> rstatus r = status e
     \<and> map_of (rheaders r) ''Content-Type'' = Some (HText ''application/json'')
     \<and> (\<forall>m. response e = RString m \<longrightarrow>
          map_of (rbody r) ''statusCode'' = Some (JNum (status e))
        \<and> map_of (rbody r) ''message'' = Some (JStr m)
        \<and> rbody r =
            [(''statusCode'', JNum (status e)), (''message'', JStr m)]
            @ (if isDev env \<and> truthy (stack e)
               then [(''stack'', JStr (the (stack e)))]
               else []))
     \<and> (\<forall>ob. response e = RObject ob \<longrightarrow>
          (''message'' \<in> fst ` set (rbody r)
             \<longleftrightarrow> (\<exists>v. property ob ''message'' = Some v \<and> v \<noteq> JUndefined))
        \<and> (''statusCode'' \<notin> fst ` set ob \<longrightarrow>
              map_of (rbody r) ''statusCode'' = Some (JNum (status e)))
        \<and> (\<forall>k v. k \<noteq> ''stack'' \<and> property ob k = Some v \<and> v \<noteq> JUndefined
              \<longrightarrow> map_of (rbody r) k = Some (stringified v))
        \<and> (\<forall>k. k \<noteq> ''stack'' \<and> k \<noteq> ''statusCode''
                \<and> (property ob k = None \<or> property ob k = Some JUndefined)
              \<longrightarrow> map_of (rbody r) k = None))
     \<and> (''stack'' \<in> fst ` set (rbody r) \<longrightarrow>
          isDev env \<or> (\<exists>ob. response e = RObject ob \<and> ''stack'' \<in> fst ` set ob))
     \<and> (isDev env \<and> truthy (stack e) \<longrightarrow>
          map_of (rbody r) ''stack'' = Some (JStr (the (stack e))))"
      using nf st RObject
      by (cases "retryAfter e")
         (auto simp add: handleException_def errorToResponse_def toResponse_def newResponse_def
            Let_def e_def [symmetric] in_keys_iff object_body object_body_stack map_add_def
            property_def rev_none update_conv'
            split: option.splits if_splits)
  qed
qed

theorem error_response_shape_witness:
  "tryFilters [] (IsHttpException \<lparr>status = 404, response = RString ''Not Found'',
                                   stack = Some ''at f'', retryAfter = None\<rparr>) = None
   \<and> \<not> nullBodyStatus 404
   \<and> isDev (Some [''ENVIRONMENT'' \<mapsto> JStr ''development''])
   \<and> handleException [] (Some [''ENVIRONMENT'' \<mapsto> JStr ''development'']) None
         (IsHttpException \<lparr>status = 404, response = RString ''Not Found'',
                           stack = Some ''at f'', retryAfter = None\<rparr>)
       = Inr \<lparr>rstatus = 404, rheaders = [(''Content-Type'', HText ''application/json'')],
              rbody = [(''statusCode'', JNum 404), (''message'', JStr ''Not Found''),
                       (''stack'', JStr ''at f'')]\<rparr>"
  using error_response_shape [of "[]"
      "IsHttpException \<lparr>status = 404, response = RString ''Not Found'',
                        stack = Some ''at f'', retryAfter = None\<rparr>"
      None "Some [''ENVIRONMENT'' \<mapsto> JStr ''development'']"]
  by (simp add: response_defs)


text \<open>
  Outside those statuses the \<^verbatim>\<open>Response\<close> constructor throws inside \<^verbatim>\<open>handleException\<close> and
  no response is produced, as for \<^verbatim>\<open>new HttpException('No Content', 204)\<close>; and a property
  whose value is \<^verbatim>\<open>undefined\<close> is not written, not even \<^verbatim>\<open>statusCode\<close>.
\<close>

lemma null_body_status_throws:
  "handleException [] env engineStack
       (IsHttpException \<lparr>status = 204, response = RString ''No Content'',
                         stack = s, retryAfter = None\<rparr>)
     = Inl ResponseTypeError"
  by (simp add: response_defs Let_def)

lemma undefined_property_dropped:
  "handleException [] None None
       (IsHttpException \<lparr>status = 400,
                         response = RObject [(''statusCode'', JUndefined), (''message'', JUndefined)],
                         stack = None, retryAfter = None\<rparr>)
     = Inr \<lparr>rstatus = 400, rheaders = [(''Content-Type'', HText ''application/json'')],
            rbody = []\<rparr>"
  by (simp add: response_defs)

lemma other_errors_always_answered:
  assumes "tryFilters globalFilters error = None" "\<forall>e. error \<noteq> IsHttpException e"
  shows "\<exists>r. handleException globalFilters env engineStack error = Inr r \<and> rstatus r = 500"
  using assms
  by (cases error) (auto simp add: response_defs Let_def)

section \<open>Router: registration and matching\<close>

lemmas router_defs = register_def match_def newRouter_def createNode_def normalizePath_def
  splitPath_def insertSegment_def parseSegment_def splitOrExtendNode_def getHandler_def
  startsWith_def

lemma users_active_example:
  "(let r1 = fst (register compile ''GET'' ''/users/:id'' h1 newRouter);
        r2 = fst (register compile ''GET'' ''/users/active'' h2 r1)
    in match r2 ''GET'' ''/users/active'' = Some (h2, Map.empty)
     \<and> match r2 ''GET'' ''/users/42'' = Some (h1, [''id'' \<mapsto> ''42'']))
  \<and> (let r1 = fst (register compile ''GET'' ''/users/active'' h2 newRouter);
        r2 = fst (register compile ''GET'' ''/users/:id'' h1 r1)
    in match r2 ''GET'' ''/users/active'' = Some (h2, Map.empty)
     \<and> match r2 ''GET'' ''/users/42'' = Some (h1, [''id'' \<mapsto> ''42'']))"
  by (simp add: router_defs Let_def)

lemma staticBranch_eq:
  "staticBranch node seg rest method ps =
     (case map_of (children node) (take 1 seg) of
                  None \<Rightarrow> (None, ps)
                | Some staticChild \<Rightarrow>
                    (if segment staticChild = seg
                     then matchPath rest staticChild ps method
                     else if startsWith seg (segment staticChild)
                     then (case map_of (children staticChild)
                                  (take 1 (drop (length (segment staticChild)) seg)) of
                                 None \<Rightarrow> (None, ps)
                               | Some nextChild \<Rightarrow>
                                   (if drop (length (segment staticChild)) seg = segment nextChild
                                    then matchPath rest nextChild ps method
                                    else (None, ps)))
                     else (None, ps)))"
  by (simp add: staticBranch_def staticTarget_def split: option.splits)

lemma paramBranch_True_eq:
  "paramBranch True node seg rest method p1 =
     (case paramChild node of
                   None \<Rightarrow> (None, p1)
                 | Some pc \<Rightarrow>
                     (case pattern pc of
                        None \<Rightarrow> (None, p1)
                      | Some test \<Rightarrow>
                          (if test seg
                           then (if fst (matchPath rest pc (p1(segment pc \<mapsto> seg)) method) \<noteq> None
                                 then matchPath rest pc (p1(segment pc \<mapsto> seg)) method
                                 else (None, (snd (matchPath rest pc (p1(segment pc \<mapsto> seg)) method))
                                               (segment pc := p1 (segment pc))))
                           else (None, p1))))"
  by (auto simp add: paramBranch_def split: option.splits prod.splits)

lemma paramBranch_False_eq:
  "paramBranch False node seg rest method p2 =
     (case paramChild node of
                   None \<Rightarrow> (None, p2)
                 | Some pc \<Rightarrow>
                     (case pattern pc of
                        Some test \<Rightarrow> (None, p2)
                      | None \<Rightarrow>
                          (if fst (matchPath rest pc (p2(segment pc \<mapsto> seg)) method) \<noteq> None
                           then matchPath rest pc (p2(segment pc \<mapsto> seg)) method
                           else (None, (snd (matchPath rest pc (p2(segment pc \<mapsto> seg)) method))
                                         (segment pc := p2 (segment pc))))))"
  by (auto simp add: paramBranch_def split: option.splits prod.splits)

lemma wildcardBranch_eq:
  "wildcardBranch node seg rest method p3 =
     (case wildcardChild node of
             Some wc \<Rightarrow> (getHandler wc method, p3(segment wc \<mapsto> joinSlash (seg # rest)))
           | None \<Rightarrow> (None, p3))"
  by (simp add: wildcardBranch_def split: option.splits)

lemma orderedChoice_unfold:
  "orderedChoice [a, b, c, d] ps =
     (if fst (a ps) \<noteq> None then a ps
      else if fst (b (snd (a ps))) \<noteq> None then b (snd (a ps))
      else if fst (c (snd (b (snd (a ps))))) \<noteq> None then c (snd (b (snd (a ps))))
      else d (snd (c (snd (b (snd (a ps)))))))"
  by (auto split: prod.splits option.splits)

lemma matchPath_precedence:
  "matchPath (seg # rest) node ps method =
     orderedChoice
       [staticBranch node seg rest method,
        paramBranch True node seg rest method,
        paramBranch False node seg rest method,
        wildcardBranch node seg rest method] ps"
  unfolding orderedChoice_unfold
  unfolding staticBranch_eq paramBranch_True_eq paramBranch_False_eq wildcardBranch_eq
  unfolding matchPath.simps Let_def
  by (rule refl)


text \<open>
  C6 fails on the code in its second half. The order of the branches is as claimed
  (\<open>matchPath_precedence\<close>), and with only \<^verbatim>\<open>/users/:id\<close> and \<^verbatim>\<open>/users/active\<close> registered
  the static route wins (\<open>users_active_example\<close>). But once \<^verbatim>\<open>/users/a\<close> and \<^verbatim>\<open>/users/ac\<close>
  are registered as well, the registration of \<^verbatim>\<open>/users/active\<close> ends on the node of
  \<^verbatim>\<open>/users/ac\<close>: the static branch finds no node for \<^verbatim>\<open>active\<close>, and \<^verbatim>\<open>/users/active\<close> is
  answered by the parameter route, with \<^verbatim>\<open>id\<close> bound to \<^verbatim>\<open>active\<close>.
\<close>

theorem static_route_shadowed:
  "(let r1 = fst (register compile ''GET'' ''/users/:id'' h1 newRouter);
        r2 = fst (register compile ''GET'' ''/users/a'' ha r1);
        r3 = fst (register compile ''GET'' ''/users/ac'' hb r2);
        r4 = fst (register compile ''GET'' ''/users/active'' h2 r3)
    in match r4 ''GET'' ''/users/active'' = Some (h1, [''id'' \<mapsto> ''active''])
     \<and> match r4 ''GET'' ''/users/ac'' = Some (h2, Map.empty))"
  by (simp add: router_defs Let_def)

text \<open>
  C2 fails on the code. After \<^verbatim>\<open>/t\<close>, \<^verbatim>\<open>/te\<close> and \<^verbatim>\<open>/tea\<close> have been registered in that
  order, the third registration finds the child \<^verbatim>\<open>e\<close> of node \<^verbatim>\<open>t\<close> under the first character
  of the remainder \<^verbatim>\<open>ea\<close> and returns it without comparing or splitting it. The handler of
  \<^verbatim>\<open>/tea\<close> therefore replaces the handler of \<^verbatim>\<open>/te\<close>, and \<^verbatim>\<open>/tea\<close> itself does not match.
\<close>

theorem static_split_roundtrip_fails:
  "(let r1 = fst (register compile ''GET'' ''/t'' h1 newRouter);
        r2 = fst (register compile ''GET'' ''/te'' h2 r1);
        r3 = fst (register compile ''GET'' ''/tea'' h3 r2)
    in match r3 ''GET'' ''/tea'' = None
     \<and> match r3 ''GET'' ''/te'' = Some (h3, Map.empty)
     \<and> match r3 ''GET'' ''/t'' = Some (h1, Map.empty))"
  by (simp add: router_defs Let_def)

text \<open>
  C5 fails on the code for wildcard values. With \<^verbatim>\<open>POST /a/*rest\<close> and \<^verbatim>\<open>GET /:p/b\<close>
  registered, matching \<^verbatim>\<open>GET /a/b\<close> first explores the static child \<^verbatim>\<open>a\<close>, whose wildcard
  child binds \<^verbatim>\<open>rest\<close> and has no handler for \<^verbatim>\<open>GET\<close>; that branch is abandoned without the
  binding being removed, and the match of \<^verbatim>\<open>/:p/b\<close> is returned with \<^verbatim>\<open>rest\<close> still bound.
\<close>

theorem wildcard_binding_leaks:
  "(let r1 = fst (register compile ''POST'' ''/a/*rest'' h1 newRouter);
        r2 = fst (register compile ''GET'' ''/:p/b'' h2 r1)
    in match r2 ''GET'' ''/a/b'' = Some (h2, [''rest'' \<mapsto> ''b'', ''p'' \<mapsto> ''a'']))"
  by (simp add: router_defs Let_def)


section \<open>Container: cycles and asynchronous providers\<close>

lemmas di_defs = registerProvider_def initialWorld_def newContainer_def getProviderRecord_def
  containerToken_def resolve_def resolveAsync_def resolveSingleton_def resolveRequestScoped_def
  resolveTransient_def pushStack_def popStack_def noteCall_def storeInstance_def storeScoped_def
  orSingleton_def circularDependencyError_def tokenNotFoundError_def asyncProviderError_def

lemma transient_self_cycle:
  assumes "providers (containers w c) t = Some rec" "pscope rec = TRANSIENT"
    "factory rec = UserFactory [t] f" "t \<notin> set (resolutionStack (containers w c))" "0 < count w"
  shows "fst (resolveInternal n c t optional w) = Inl RangeError"
  using assms
proof (induction n arbitrary: w optional)
  case 0
  then show ?case by simp
next
  case (Suc n)
  from Suc.prems obtain k where k: "count w = Suc k" by (cases "count w") auto
  have g: "getProviderRecord w c t = Some (c, rec)"
    using Suc.prems by (simp add: getProviderRecord_def k)
  have ih: "fst (resolveInternal n c t False (noteCall (ptoken rec) w)) = Inl RangeError"
    using Suc.prems by (intro Suc.IH) (simp_all add: noteCall_def)
  obtain w' where r: "resolveInternal n c t False (noteCall (ptoken rec) w) = (Inl RangeError, w')"
    using ih by (cases "resolveInternal n c t False (noteCall (ptoken rec) w)") auto
  show ?case
    using Suc.prems by (simp add: g resolveTransient_def r)
qed

text \<open>
  C3 fails on the code for transient providers. \<^verbatim>\<open>resolveTransient\<close> never pushes its token
  on the resolution stack. A transient provider that injects its own token is therefore
  resolved again and again until the call stack is exhausted: whatever the depth bound, the
  result is the engine's \<^verbatim>\<open>RangeError\<close>, never a \<^verbatim>\<open>CircularDependencyError\<close>. And in the cycle
  singleton A, transient B, A the reported path is \<^verbatim>\<open>A -> A\<close>: the token B of the cycle is
  missing from it.
\<close>

theorem transient_cycle_not_detected:
  "(case registerMany 0
           [FactoryProvider (StringToken ''A'') f [StringToken ''A''] (Some TRANSIENT)]
           initialWorld of
      Inl e \<Rightarrow> False
    | Inr w \<Rightarrow> fst (resolve n 0 (StringToken ''A'') False w) = Inl RangeError)
 \<and> (case registerMany 0
           [FactoryProvider (StringToken ''A'') f [StringToken ''B''] None,
            FactoryProvider (StringToken ''B'') g [StringToken ''A''] (Some TRANSIENT)]
           initialWorld of
      Inl e \<Rightarrow> False
    | Inr w \<Rightarrow> fst (resolve (Suc (Suc (Suc n))) 0 (StringToken ''A'') False w)
               = Inl (CircularDependencyError ''Circular dependency detected: A -> A''))"
proof
  let ?rec = "\<lparr>ptoken = StringToken ''A'', pscope = TRANSIENT,
                factory = UserFactory [StringToken ''A''] f, pinstance = Undefined,
                isResolved = False\<rparr>"
  let ?w = "initialWorld\<lparr>containers := (containers initialWorld)
                  (0 := (containers initialWorld 0)\<lparr>providers :=
                      (providers (containers initialWorld 0))(StringToken ''A'' \<mapsto> ?rec)\<rparr>)\<rparr>"
  have "fst (resolveInternal n 0 (StringToken ''A'') False ?w) = Inl RangeError"
    by (rule transient_self_cycle [where rec = ?rec and f = f])
       (simp_all add: initialWorld_def newContainer_def)
  then have "fst (resolve n 0 (StringToken ''A'') False ?w) = Inl RangeError"
    by (cases "resolveInternal n 0 (StringToken ''A'') False ?w") (simp add: resolve_def)
  then show "case registerMany 0
           [FactoryProvider (StringToken ''A'') f [StringToken ''A''] (Some TRANSIENT)]
           initialWorld of
      Inl e \<Rightarrow> False
    | Inr w \<Rightarrow> fst (resolve n 0 (StringToken ''A'') False w) = Inl RangeError"
    by (simp add: registerProvider_def orSingleton_def)
next
  show "case registerMany 0
           [FactoryProvider (StringToken ''A'') f [StringToken ''B''] None,
            FactoryProvider (StringToken ''B'') g [StringToken ''A''] (Some TRANSIENT)]
           initialWorld of
      Inl e \<Rightarrow> False
    | Inr w \<Rightarrow> fst (resolve (Suc (Suc (Suc n))) 0 (StringToken ''A'') False w)
               = Inl (CircularDependencyError ''Circular dependency detected: A -> A'')"
    by (simp add: di_defs)
qed

text \<open>
  C7 fails on the code in its second half. \<^verbatim>\<open>D\<close> is a provider with an asynchronous factory,
  \<^verbatim>\<open>F\<close> a factory provider that injects \<^verbatim>\<open>D\<close>, and \<^verbatim>\<open>C\<close> a class with the constructor
  dependency \<^verbatim>\<open>D\<close>. The synchronous \<^verbatim>\<open>resolve(F)\<close> fails with a \<^verbatim>\<open>ContainerError\<close>, as claimed,
  but so does \<^verbatim>\<open>resolveAsync(F)\<close>: the factory closure of a factory provider resolves its
  dependencies with the synchronous \<^verbatim>\<open>container.resolve\<close>. The class provider, whose
  dependencies go through \<^verbatim>\<open>resolveInternal\<close>, yields a promise.
\<close>

theorem async_dependency_of_factory:
  "(case registerMany 0
           [FactoryProvider (StringToken ''D'') (\<lambda>args k. Promise (Obj k)) [] None,
            FactoryProvider (StringToken ''F'') (\<lambda>args k. Obj k) [StringToken ''D''] None,
            ClassProvider (StringToken ''C'')
              \<lparr>cname = ''C'', cdeps = [(StringToken ''D'', False)], cscope = None\<rparr> None]
           initialWorld of
      Inl e \<Rightarrow> False
    | Inr w \<Rightarrow>
        fst (resolve (Suc (Suc n)) 0 (StringToken ''F'') False w)
          = Inl (ContainerError
                  ''Cannot use resolve() for async provider D. Use resolveAsync() instead.'')
      \<and> fst (resolveAsync (Suc (Suc n)) 0 (StringToken ''F'') False w)
          = Inl (ContainerError
                  ''Cannot use resolve() for async provider D. Use resolveAsync() instead.'')
      \<and> fst (resolveAsync (Suc (Suc n)) 0 (StringToken ''C'') False w)
          = Inr (ThenCache (PendingNew ''C'' [ThenCache (Promise (Obj 0))])))"
  by (simp add: di_defs)


lemma resolve_never_pending:
  "resolve n c t optional w = (Inr v, w') \<Longrightarrow> \<not> isPromise v"
  by (auto simp add: resolve_def split: prod.splits sum.splits if_splits)


section \<open>Container: scopes and cached instances\<close>

lemma sameShape_refl [simp]: "sameShape r r"
  by (simp add: sameShape_def)

lemma rel_option_sameShape_refl [simp]: "rel_option sameShape x x"
  by (cases x) simp_all

lemma rel_option_sameShape_trans:
  "rel_option sameShape x y \<Longrightarrow> rel_option sameShape y z \<Longrightarrow> rel_option sameShape x z"
  by (cases x; cases y; cases z) (simp_all add: sameShape_def)

lemma frame_refl [simp]: "frame c w w"
  by (simp add: frame_def)

lemma frame_trans: "frame c w w' \<Longrightarrow> frame c w' w'' \<Longrightarrow> frame c w w''"
  unfolding frame_def
  apply (intro conjI)
     apply simp
    apply simp
   apply (elim conjE exE) apply simp
  apply (intro allI conjI)
     apply simp
    apply simp
   apply simp
  apply (blast intro: rel_option_sameShape_trans)
  done

lemma frame_nextId: "frame c w (w\<lparr>nextId := Suc (nextId w)\<rparr>)"
  by (simp add: frame_def)

lemma frame_noteCall: "frame c w (noteCall t w)"
  by (simp add: frame_def noteCall_def)

lemma frame_storeScoped: "frame c w (storeScoped c t v w)"
  by (simp add: frame_def storeScoped_def)

lemma frame_storeInstance: "frame c w (storeInstance owner t v w)"
  by (auto simp add: frame_def storeInstance_def sameShape_def split: option.splits)

lemma frame_push_pop:
  assumes "frame c (pushStack c t w) w'"
  shows "frame c w (popStack c w')"
  using assms
  by (auto simp add: frame_def pushStack_def popStack_def split: if_splits)


lemma frame_resolveArgs:
  assumes ri: "\<And>t optional w. frame c w (snd (ri c t optional w))"
  shows "frame c w (snd (resolveArgs ri c ds w))"
proof (induction ds arbitrary: w)
  case Nil
  show ?case by simp
next
  case (Cons d ds)
  obtain r w' where a: "ri c (fst d) (snd d) w = (r, w')" by (cases "ri c (fst d) (snd d) w")
  have f1: "frame c w w'" using ri [of w "fst d" "snd d"] a by simp
  show ?case
  proof (cases r)
    case (Inl e)
    then show ?thesis using a f1 by simp
  next
    case (Inr v)
    obtain r2 w'' where b: "resolveArgs ri c ds w' = (r2, w'')" by (cases "resolveArgs ri c ds w'")
    have f2: "frame c w' w''" using Cons.IH [of w'] b by simp
    have "frame c w w''" using f1 f2 by (rule frame_trans)
    then show ?thesis using a b Inr by (cases r2) simp_all
  qed
qed

lemma frame_resolveInjected:
  assumes ri: "\<And>t optional w. frame c w (snd (ri c t optional w))"
  shows "frame c w (snd (resolveInjected ri c ds w))"
proof (induction ds arbitrary: w)
  case Nil
  show ?case by simp
next
  case (Cons d ds)
  obtain r w' where a: "ri c d False w = (r, w')" by (cases "ri c d False w")
  have f1: "frame c w w'" using ri [of w d False] a by simp
  show ?case
  proof (cases r)
    case (Inl e)
    then show ?thesis using a f1 by simp
  next
    case (Inr v)
    obtain r2 w'' where b: "resolveInjected ri c ds w' = (r2, w'')"
      by (cases "resolveInjected ri c ds w'")
    have f2: "frame c w' w''" using Cons.IH [of w'] b by simp
    have "frame c w w''" using f1 f2 by (rule frame_trans)
    then show ?thesis using a b Inr f1 by (cases r2) simp_all
  qed
qed

lemma frame_runFactory:
  assumes ri: "\<And>t optional w. frame c w (snd (ri c t optional w))"
  shows "frame c w (snd (runFactory ri c f w))"
proof (cases f)
  case (ClassFactory cls deps)
  obtain r w' where a: "resolveArgs ri c deps w = (r, w')" by (cases "resolveArgs ri c deps w")
  have f1: "frame c w w'" using frame_resolveArgs [where ri = ri and c = c, OF ri, of w deps] a by simp
  have f2: "frame c w (w'\<lparr>nextId := Suc (nextId w')\<rparr>)"
    using f1 frame_nextId by (rule frame_trans)
  show ?thesis using ClassFactory a f1 f2 by (cases r) simp_all
next
  case (ValueFactory v)
  then show ?thesis by simp
next
  case (UserFactory inject g)
  obtain r w' where a: "resolveInjected ri c inject w = (r, w')"
    by (cases "resolveInjected ri c inject w")
  have f1: "frame c w w'" using frame_resolveInjected [where ri = ri and c = c, OF ri, of w inject] a by simp
  have f2: "frame c w (w'\<lparr>nextId := Suc (nextId w')\<rparr>)"
    using f1 frame_nextId by (rule frame_trans)
  show ?thesis using UserFactory a f1 f2 by (cases r) simp_all
next
  case (ExistingFactory existing)
  obtain r w' where a: "ri c existing False w = (r, w')" by (cases "ri c existing False w")
  have f1: "frame c w w'" using ri [of w existing False] a by simp
  show ?thesis using ExistingFactory a f1 by (cases r) simp_all
next
  case (SelfFactory self)
  then show ?thesis by simp
qed

lemma frame_called:
  assumes ri: "\<And>t optional w. frame c w (snd (ri c t optional w))"
    and run: "runFactory ri c f (noteCall t' (pushStack c t w)) = (r, w')"
  shows "frame c (pushStack c t w) w'"
proof -
  have "frame c (noteCall t' (pushStack c t w)) w'"
    using frame_runFactory [where ri = ri and c = c, OF ri, of "noteCall t' (pushStack c t w)" f] run by simp
  with frame_noteCall show ?thesis by (rule frame_trans)
qed

lemma frame_resolveSingleton:
  assumes ri: "\<And>t optional w. frame c w (snd (ri c t optional w))"
  shows "frame c w (snd (resolveSingleton ri c t owner rec w))"
proof (cases "isResolved rec \<and> pinstance rec \<noteq> Undefined")
  case True
  then show ?thesis by (simp add: resolveSingleton_def)
next
  case False
  obtain r w' where a: "runFactory ri c (factory rec) (noteCall (ptoken rec) (pushStack c t w)) = (r, w')"
    by (cases "runFactory ri c (factory rec) (noteCall (ptoken rec) (pushStack c t w))")
  have f1: "frame c (pushStack c t w) w'" using frame_called [where ri = ri and c = c, OF ri a] .
  have f2: "frame c w (popStack c w')" using f1 by (rule frame_push_pop)
  have f3: "frame c w (popStack c (storeInstance owner t v w'))" for v
    using frame_trans [OF f1 frame_storeInstance] by (rule frame_push_pop)
  show ?thesis using False a f2 f3 by (cases r) (simp_all add: resolveSingleton_def)
qed

lemma frame_resolveRequestScoped:
  assumes ri: "\<And>t optional w. frame c w (snd (ri c t optional w))"
  shows "frame c w (snd (resolveRequestScoped ri c t rec w))"
proof (cases "scopedInstances (containers w c) t")
  case (Some v)
  then show ?thesis by (simp add: resolveRequestScoped_def)
next
  case None
  obtain r w' where a: "runFactory ri c (factory rec) (noteCall (ptoken rec) (pushStack c t w)) = (r, w')"
    by (cases "runFactory ri c (factory rec) (noteCall (ptoken rec) (pushStack c t w))")
  have f1: "frame c (pushStack c t w) w'" using frame_called [where ri = ri and c = c, OF ri a] .
  have f2: "frame c w (popStack c w')" using f1 by (rule frame_push_pop)
  have f3: "frame c w (popStack c (storeScoped c t v w'))" for v
    using frame_trans [OF f1 frame_storeScoped] by (rule frame_push_pop)
  show ?thesis using None a f2 f3 by (cases r) (simp_all add: resolveRequestScoped_def)
qed

lemma frame_resolveTransient:
  assumes ri: "\<And>t optional w. frame c w (snd (ri c t optional w))"
  shows "frame c w (snd (resolveTransient ri c rec w))"
proof -
  have "frame c (noteCall (ptoken rec) w) (snd (resolveTransient ri c rec w))"
    using frame_runFactory [where ri = ri and c = c, OF ri] by (simp add: resolveTransient_def)
  with frame_noteCall show ?thesis by (rule frame_trans)
qed

lemma frame_resolveInternal: "frame c w (snd (resolveInternal n c t optional w))"
proof (induction n arbitrary: t optional w)
  case 0
  show ?case by simp
next
  case (Suc n)
  have ri: "\<And>t optional w. frame c w (snd (resolveInternal n c t optional w))"
    using Suc.IH .
  show ?case
    using frame_resolveSingleton [where ri = "resolveInternal n" and c = c, OF ri]
      frame_resolveRequestScoped [where ri = "resolveInternal n" and c = c, OF ri]
      frame_resolveTransient [where ri = "resolveInternal n" and c = c, OF ri]
    by (simp split: option.splits prod.splits scope.splits)
qed

lemma lookup_owner:
  "getProviderRecordN k w d t = Some (owner, r) \<Longrightarrow> providers (containers w owner) t = Some r"
  by (induction k arbitrary: d) (auto split: option.splits)

lemma lookupN_frame:
  assumes "frame c w w'" "getProviderRecordN k w d t = Some (owner, r)"
  shows "\<exists>r'. getProviderRecordN k w' d t = Some (owner, r') \<and> sameShape r r'"
  using assms(2)
proof (induction k arbitrary: d)
  case 0
  then show ?case by simp
next
  case (Suc k)
  from assms(1) have rel: "rel_option sameShape (providers (containers w d) t)
                                                 (providers (containers w' d) t)"
    and par: "parent (containers w' d) = parent (containers w d)"
    by (simp_all add: frame_def)
  show ?case
  proof (cases "providers (containers w d) t")
    case (Some r0)
    with rel obtain r1 where "providers (containers w' d) t = Some r1" "sameShape r0 r1"
      by (cases "providers (containers w' d) t") auto
    with Some Suc.prems show ?thesis by auto
  next
    case None
    with rel have n': "providers (containers w' d) t = None"
      by (cases "providers (containers w' d) t") auto
    from None Suc.prems obtain p where p: "parent (containers w d) = Some p"
      "getProviderRecordN k w p t = Some (owner, r)"
      by (auto split: option.splits)
    from Suc.IH [OF p(2)] show ?thesis using n' par p(1) by simp
  qed
qed

lemma lookup_frame:
  assumes "frame c w w'" "getProviderRecord w d t = Some (owner, r)"
  shows "\<exists>r'. getProviderRecord w' d t = Some (owner, r')
            \<and> providers (containers w' owner) t = Some r' \<and> sameShape r r'"
proof -
  from assms(1) have cnt: "count w' = count w" by (simp add: frame_def)
  from lookupN_frame [OF assms(1), of "count w" d t owner r] assms(2)
  obtain r' where r': "getProviderRecordN (count w) w' d t = Some (owner, r')" "sameShape r r'"
    by (auto simp add: getProviderRecord_def)
  then show ?thesis using lookup_owner [of "count w" w' d t owner r'] cnt
    by (auto simp add: getProviderRecord_def)
qed

lemma providers_popStack [simp]:
  "providers (containers (popStack c w) d) = providers (containers w d)"
  by (simp add: popStack_def)

lemma providers_pushStack [simp]:
  "providers (containers (pushStack c t w) d) = providers (containers w d)"
  by (simp add: pushStack_def)

lemma providers_storeScoped [simp]:
  "providers (containers (storeScoped c t v w) d) = providers (containers w d)"
  by (simp add: storeScoped_def)

lemma providers_storeInstance:
  "providers (containers (storeInstance owner t v w) owner) t =
     map_option (\<lambda>r. r\<lparr>pinstance := v, isResolved := True\<rparr>) (providers (containers w owner) t)"
  by (simp add: storeInstance_def split: option.splits)

lemma scoped_stored [simp]:
  "scopedInstances (containers (popStack c (storeScoped c t v w)) c) t = Some v"
  by (simp add: popStack_def storeScoped_def)

lemma calls_popStack [simp]: "factoryCalls (popStack c w) = factoryCalls w"
  by (simp add: popStack_def)

lemma calls_storeInstance [simp]: "factoryCalls (storeInstance owner t v w) = factoryCalls w"
  by (simp add: storeInstance_def)

lemma calls_storeScoped [simp]: "factoryCalls (storeScoped c t v w) = factoryCalls w"
  by (simp add: storeScoped_def)

lemma nextId_popStack [simp]: "nextId (popStack c w) = nextId w"
  by (simp add: popStack_def)

lemma nextId_storeInstance [simp]: "nextId (storeInstance owner t v w) = nextId w"
  by (simp add: storeInstance_def)

lemma nextId_storeScoped [simp]: "nextId (storeScoped c t v w) = nextId w"
  by (simp add: storeScoped_def)

lemma resolve_Inr:
  assumes "resolve n c t optional w = (Inr v, w')"
  shows "resolveInternal n c t optional w = (Inr v, w')" "\<not> isPromise v"
  using assms by (auto simp add: resolve_def split: prod.splits sum.splits if_splits)

lemma resolve_of_internal:
  "resolveInternal n c t optional w = (Inr v, w') \<Longrightarrow> \<not> isPromise v
     \<Longrightarrow> resolve n c t optional w = (Inr v, w')"
  by (simp add: resolve_def)

text \<open>What a successful resolution of a registered token unfolds to.\<close>

lemma resolveInternal_found:
  assumes "resolveInternal (Suc n) c t optional w = (Inr v, w')"
    and "getProviderRecord w c t = Some (owner, rec)"
  shows "t \<notin> set (resolutionStack (containers w c))"
    and "(case pscope rec of
            SINGLETON \<Rightarrow> resolveSingleton (resolveInternal n) c t owner rec w
          | REQUEST \<Rightarrow> resolveRequestScoped (resolveInternal n) c t rec w
          | TRANSIENT \<Rightarrow> resolveTransient (resolveInternal n) c rec w) = (Inr v, w')"
  using assms by (auto split: if_splits)

lemma frame_stack:
  "frame c w w' \<Longrightarrow> resolutionStack (containers w' d) = resolutionStack (containers w d)"
  by (simp add: frame_def)

lemma singleton_twice:
  assumes g: "getProviderRecord w c t = Some (owner, rec)" and sc: "pscope rec = SINGLETON"
    and r1: "resolve (Suc n) c t optional w = (Inr v, w1)" and v: "v \<noteq> Undefined"
  shows "resolve (Suc m) c t optional' w1 = (Inr v, w1)"
proof -
  note ri = resolve_Inr [OF r1]
  have ns: "t \<notin> set (resolutionStack (containers w c))"
    and rs: "resolveSingleton (resolveInternal n) c t owner rec w = (Inr v, w1)"
    using resolveInternal_found [OF ri(1) g] sc by simp_all
  have fr: "frame c w w1"
    using frame_resolveInternal [of c w "Suc n" t optional] ri(1) by simp
  from lookup_frame [OF fr g] obtain rec1 where
    g1: "getProviderRecord w1 c t = Some (owner, rec1)"
    and p1: "providers (containers w1 owner) t = Some rec1" and sh: "sameShape rec rec1"
    by blast
  have p0: "providers (containers w owner) t = Some rec"
    using g lookup_owner by (simp add: getProviderRecord_def)
  have cached: "isResolved rec1 \<and> pinstance rec1 = v"
  proof (cases "isResolved rec \<and> pinstance rec \<noteq> Undefined")
    case True
    with rs have "w1 = w" "v = pinstance rec" by (simp_all add: resolveSingleton_def)
    with p0 p1 True show ?thesis by simp
  next
    case False
    obtain r' w' where run:
      "runFactory (resolveInternal n) c (factory rec) (noteCall (ptoken rec) (pushStack c t w)) = (r', w')"
      by (cases "runFactory (resolveInternal n) c (factory rec) (noteCall (ptoken rec) (pushStack c t w))")
    from rs False run ri(2) have w1: "w1 = popStack c (storeInstance owner t v w')"
      by (cases r') (auto simp add: resolveSingleton_def split: if_splits)
    have "frame c (pushStack c t w) w'"
      using frame_called [where ri = "resolveInternal n" and c = c, OF frame_resolveInternal run] .
    then have "rel_option sameShape (providers (containers w owner) t)
                                     (providers (containers w' owner) t)"
      by (simp add: frame_def)
    with p0 obtain r0 where "providers (containers w' owner) t = Some r0"
      by (cases "providers (containers w' owner) t") auto
    with p1 show ?thesis by (auto simp add: w1 providers_storeInstance)
  qed
  have ns1: "t \<notin> set (resolutionStack (containers w1 c))"
    using ns frame_stack [OF fr] by simp
  have "pscope rec1 = SINGLETON" using sh sc by (simp add: sameShape_def)
  then have "resolveInternal (Suc m) c t optional' w1 = (Inr v, w1)"
    using ns1 g1 cached v by (simp add: resolveSingleton_def)
  then show ?thesis using ri(2) by (rule resolve_of_internal)
qed

lemma request_twice:
  assumes g: "getProviderRecord w c t = Some (owner, rec)" and sc: "pscope rec = REQUEST"
    and r1: "resolve (Suc n) c t optional w = (Inr v, w1)"
  shows "resolve (Suc m) c t optional' w1 = (Inr v, w1)"
proof -
  note ri = resolve_Inr [OF r1]
  have ns: "t \<notin> set (resolutionStack (containers w c))"
    and rs: "resolveRequestScoped (resolveInternal n) c t rec w = (Inr v, w1)"
    using resolveInternal_found [OF ri(1) g] sc by simp_all
  have fr: "frame c w w1"
    using frame_resolveInternal [of c w "Suc n" t optional] ri(1) by simp
  from lookup_frame [OF fr g] obtain rec1 where
    g1: "getProviderRecord w1 c t = Some (owner, rec1)" and sh: "sameShape rec rec1"
    by blast
  have cached: "scopedInstances (containers w1 c) t = Some v"
  proof (cases "scopedInstances (containers w c) t")
    case (Some v0)
    with rs show ?thesis by (simp add: resolveRequestScoped_def)
  next
    case None
    obtain r' w' where run:
      "runFactory (resolveInternal n) c (factory rec) (noteCall (ptoken rec) (pushStack c t w)) = (r', w')"
      by (cases "runFactory (resolveInternal n) c (factory rec) (noteCall (ptoken rec) (pushStack c t w))")
    from rs None run ri(2) have "w1 = popStack c (storeScoped c t v w')"
      by (cases r') (auto simp add: resolveRequestScoped_def split: if_splits)
    then show ?thesis by simp
  qed
  have ns1: "t \<notin> set (resolutionStack (containers w1 c))"
    using ns frame_stack [OF fr] by simp
  have "pscope rec1 = REQUEST" using sh sc by (simp add: sameShape_def)
  then have "resolveInternal (Suc m) c t optional' w1 = (Inr v, w1)"
    using ns1 g1 cached by (simp add: resolveRequestScoped_def)
  then show ?thesis using ri(2) by (rule resolve_of_internal)
qed

lemma frame_nextId_le: "frame c w w' \<Longrightarrow> nextId w \<le> nextId w'"
  by (simp add: frame_def)

lemma frame_calls: "frame c w w' \<Longrightarrow> \<exists>ext. factoryCalls w' = factoryCalls w @ ext"
  by (simp add: frame_def)

lemma frame_runFactory_n:
  assumes "runFactory (resolveInternal n) c f w = (r, w')"
  shows "frame c w w'"
proof -
  have "frame c w (snd (runFactory (resolveInternal n) c f w))"
    by (rule frame_runFactory [where ri = "resolveInternal n" and c = c])
       (rule frame_resolveInternal)
  then show ?thesis using assms by simp
qed

text \<open>A class factory that returns an instance has just allocated it.\<close>

lemma class_run:
  assumes run: "runFactory (resolveInternal n) c (ClassFactory cls deps) w = (Inr v, w')"
    and np: "\<not> isPromise v"
  shows "\<exists>k. v = Obj k \<and> nextId w \<le> k \<and> k < nextId w'"
proof -
  obtain r wa where a: "resolveArgs (resolveInternal n) c deps w = (r, wa)"
    by (cases "resolveArgs (resolveInternal n) c deps w")
  have "frame c w (snd (resolveArgs (resolveInternal n) c deps w))"
    by (rule frame_resolveArgs [where ri = "resolveInternal n" and c = c])
       (rule frame_resolveInternal)
  then have fa: "frame c w wa" using a by simp
  show ?thesis
  proof (cases r)
    case (Inl e)
    with run a show ?thesis by simp
  next
    case (Inr args)
    show ?thesis
    proof (cases "\<exists>a \<in> set args. isPromise a")
      case True
      with run a Inr np show ?thesis by auto
    next
      case False
      with run a Inr have "v = Obj (nextId wa)" "nextId w' = Suc (nextId wa)" by auto
      then show ?thesis using frame_nextId_le [OF fa] by simp
    qed
  qed
qed

lemma snd_resolve: "snd (resolve n c t optional w) = snd (resolveInternal n c t optional w)"
proof -
  obtain r w' where a: "resolveInternal n c t optional w = (r, w')"
    by (cases "resolveInternal n c t optional w")
  show ?thesis by (cases r) (simp_all add: resolve_def a)
qed

lemma transient_twice:
  assumes g: "getProviderRecord w c t = Some (owner, rec)" and sc: "pscope rec = TRANSIENT"
    and r1: "resolve (Suc n) c t optional w = (Inr v1, w1)"
    and r2: "resolve (Suc m) c t optional' w1 = (Inr v2, w2)"
  shows "(\<exists>e1. factoryCalls w1 = factoryCalls w @ ptoken rec # e1)
       \<and> (\<exists>e2. factoryCalls w2 = factoryCalls w1 @ ptoken rec # e2)
       \<and> (\<forall>cls deps. factory rec = ClassFactory cls deps
             \<longrightarrow> (\<exists>k1 k2. v1 = Obj k1 \<and> v2 = Obj k2 \<and> k1 < k2))"
proof -
  note ri1 = resolve_Inr [OF r1] and ri2 = resolve_Inr [OF r2]
  have t1: "runFactory (resolveInternal n) c (factory rec) (noteCall (ptoken rec) w) = (Inr v1, w1)"
    using resolveInternal_found [OF ri1(1) g] sc by (simp add: resolveTransient_def)
  have fr: "frame c w w1"
    using frame_resolveInternal [of c w "Suc n" t optional] ri1(1) by simp
  from lookup_frame [OF fr g] obtain rec1 where
    g1: "getProviderRecord w1 c t = Some (owner, rec1)" and sh: "sameShape rec rec1"
    by blast
  have sh': "pscope rec1 = TRANSIENT" "factory rec1 = factory rec" "ptoken rec1 = ptoken rec"
    using sh sc by (simp_all add: sameShape_def)
  have t2: "runFactory (resolveInternal m) c (factory rec) (noteCall (ptoken rec) w1) = (Inr v2, w2)"
    using resolveInternal_found [OF ri2(1) g1] sh' by (simp add: resolveTransient_def)
  have c1: "\<exists>e1. factoryCalls w1 = factoryCalls w @ ptoken rec # e1"
    using frame_calls [OF frame_runFactory_n [OF t1]] by (simp add: noteCall_def)
  have c2: "\<exists>e2. factoryCalls w2 = factoryCalls w1 @ ptoken rec # e2"
    using frame_calls [OF frame_runFactory_n [OF t2]] by (simp add: noteCall_def)
  have c3: "\<exists>k1 k2. v1 = Obj k1 \<and> v2 = Obj k2 \<and> k1 < k2"
    if cf: "factory rec = ClassFactory cls deps" for cls deps
  proof -
    from class_run [OF t1 [unfolded cf] ri1(2)] obtain k1 where
      k1: "v1 = Obj k1" "k1 < nextId w1" by blast
    from class_run [OF t2 [unfolded cf] ri2(2)] obtain k2 where
      k2: "v2 = Obj k2" "nextId (noteCall (ptoken rec) w1) \<le> k2" by blast
    from k1 k2 show ?thesis by (auto simp add: noteCall_def)
  qed
  show ?thesis
  proof (intro conjI allI impI)
    show "\<exists>e1. factoryCalls w1 = factoryCalls w @ ptoken rec # e1" by (rule c1)
    show "\<exists>e2. factoryCalls w2 = factoryCalls w1 @ ptoken rec # e2" by (rule c2)
    show "\<exists>k1 k2. v1 = Obj k1 \<and> v2 = Obj k2 \<and> k1 < k2"
      if "factory rec = ClassFactory cls deps" for cls deps
      using that by (rule c3)
  qed
qed

text \<open>A request-scoped resolution that finds no cached instance runs the factory.\<close>

lemma request_fresh:
  assumes g: "getProviderRecord w c t = Some (owner, rec)" and sc: "pscope rec = REQUEST"
    and none: "scopedInstances (containers w c) t = None"
    and r: "resolve (Suc n) c t optional w = (Inr v, w1)"
  shows "\<exists>w'. runFactory (resolveInternal n) c (factory rec)
                  (noteCall (ptoken rec) (pushStack c t w)) = (Inr v, w')
              \<and> nextId w1 = nextId w' \<and> factoryCalls w1 = factoryCalls w'"
proof -
  note ri = resolve_Inr [OF r]
  have rs: "resolveRequestScoped (resolveInternal n) c t rec w = (Inr v, w1)"
    using resolveInternal_found [OF ri(1) g] sc by simp
  obtain r' w' where run:
    "runFactory (resolveInternal n) c (factory rec) (noteCall (ptoken rec) (pushStack c t w)) = (r', w')"
    by (cases "runFactory (resolveInternal n) c (factory rec) (noteCall (ptoken rec) (pushStack c t w))")
  from rs none run ri(2) have a: "r' = Inr v"
    by (cases r') (auto simp add: resolveRequestScoped_def split: if_splits)
  from rs none run ri(2) have b: "w1 = popStack c (storeScoped c t v w')"
    by (cases r') (auto simp add: resolveRequestScoped_def split: if_splits)
  from run a b show ?thesis by simp
qed

lemma request_sibling:
  assumes g1: "getProviderRecord w c1 t = Some (owner, rec)"
    and g2: "getProviderRecord w c2 t = Some (owner, rec)"
    and sc: "pscope rec = REQUEST" and ne: "c1 \<noteq> c2"
    and n1: "scopedInstances (containers w c1) t = None"
    and n2: "scopedInstances (containers w c2) t = None"
    and r1: "resolve (Suc n) c1 t optional w = (Inr v1, w1)"
    and r2: "resolve (Suc m) c2 t optional' w1 = (Inr v2, w2)"
  shows "(\<exists>e1. factoryCalls w1 = factoryCalls w @ ptoken rec # e1)
       \<and> (\<exists>e2. factoryCalls w2 = factoryCalls w1 @ ptoken rec # e2)
       \<and> (\<forall>cls deps. factory rec = ClassFactory cls deps
             \<longrightarrow> (\<exists>k1 k2. v1 = Obj k1 \<and> v2 = Obj k2 \<and> k1 < k2))"
proof -
  note ri1 = resolve_Inr [OF r1] and ri2 = resolve_Inr [OF r2]
  from request_fresh [OF g1 sc n1 r1] obtain wa where
    t1: "runFactory (resolveInternal n) c1 (factory rec)
           (noteCall (ptoken rec) (pushStack c1 t w)) = (Inr v1, wa)"
    and e1: "nextId w1 = nextId wa" "factoryCalls w1 = factoryCalls wa" by blast
  have fr: "frame c1 w w1"
    using frame_resolveInternal [of c1 w "Suc n" t optional] ri1(1) by simp
  from lookup_frame [OF fr g2] obtain rec1 where
    g21: "getProviderRecord w1 c2 t = Some (owner, rec1)" and sh: "sameShape rec rec1"
    by blast
  have sh': "pscope rec1 = REQUEST" "factory rec1 = factory rec" "ptoken rec1 = ptoken rec"
    using sh sc by (simp_all add: sameShape_def)
  have n21: "scopedInstances (containers w1 c2) t = None"
    using fr n2 ne by (simp add: frame_def)
  from request_fresh [OF g21 sh'(1) n21 r2] obtain wb where
    t2: "runFactory (resolveInternal m) c2 (factory rec)
           (noteCall (ptoken rec) (pushStack c2 t w1)) = (Inr v2, wb)"
    and e2: "nextId w2 = nextId wb" "factoryCalls w2 = factoryCalls wb"
    by (auto simp add: sh')
  have c1: "\<exists>e1. factoryCalls w1 = factoryCalls w @ ptoken rec # e1"
    using frame_calls [OF frame_runFactory_n [OF t1]] e1
    by (simp add: noteCall_def pushStack_def)
  have c2: "\<exists>e2. factoryCalls w2 = factoryCalls w1 @ ptoken rec # e2"
    using frame_calls [OF frame_runFactory_n [OF t2]] e2
    by (simp add: noteCall_def pushStack_def)
  have c3: "\<exists>k1 k2. v1 = Obj k1 \<and> v2 = Obj k2 \<and> k1 < k2"
    if cf: "factory rec = ClassFactory cls deps" for cls deps
  proof -
    from class_run [OF t1 [unfolded cf] ri1(2)] obtain k1 where
      k1: "v1 = Obj k1" "k1 < nextId wa" by blast
    from class_run [OF t2 [unfolded cf] ri2(2)] obtain k2 where
      k2: "v2 = Obj k2" "nextId (noteCall (ptoken rec) (pushStack c2 t w1)) \<le> k2" by blast
    from k1 k2 e1 show ?thesis by (auto simp add: noteCall_def pushStack_def)
  qed
  show ?thesis
  proof (intro conjI allI impI)
    show "\<exists>e1. factoryCalls w1 = factoryCalls w @ ptoken rec # e1" by (rule c1)
    show "\<exists>e2. factoryCalls w2 = factoryCalls w1 @ ptoken rec # e2" by (rule c2)
    show "\<exists>k1 k2. v1 = Obj k1 \<and> v2 = Obj k2 \<and> k1 < k2"
      if "factory rec = ClassFactory cls deps" for cls deps
      using that by (rule c3)
  qed
qed

lemma singleton_run:
  assumes "\<not> (isResolved rec \<and> pinstance rec \<noteq> Undefined)"
  shows "\<exists>e. factoryCalls (snd (resolveSingleton (resolveInternal n) c t owner rec w))
               = factoryCalls w @ ptoken rec # e"
proof -
  obtain r' w' where run:
    "runFactory (resolveInternal n) c (factory rec) (noteCall (ptoken rec) (pushStack c t w)) = (r', w')"
    by (cases "runFactory (resolveInternal n) c (factory rec) (noteCall (ptoken rec) (pushStack c t w))")
  have "\<exists>e. factoryCalls w' = factoryCalls w @ ptoken rec # e"
    using frame_calls [OF frame_runFactory_n [OF run]] by (simp add: noteCall_def pushStack_def)
  moreover have "factoryCalls (snd (resolveSingleton (resolveInternal n) c t owner rec w))
                   = factoryCalls w'"
    using assms run by (cases r') (auto simp add: resolveSingleton_def)
  ultimately show ?thesis by simp
qed


text \<open>
  C10. Let the token \<open>t\<close> resolve, from container \<open>c\<close>, to a singleton-scoped record,
  and let a resolution return \<^verbatim>\<open>undefined\<close>. Then that resolution ran the factory, the record
  is left with an \<^verbatim>\<open>undefined\<close> instance, so that the test
  \<^verbatim>\<open>record.isResolved && record.instance !== undefined\<close> fails, and every following resolution
  of the token runs the factory again, as it would for a transient provider.
\<close>

theorem undefined_singleton_reinvoked:
  assumes g: "getProviderRecord w c t = Some (owner, rec)" and sc: "pscope rec = SINGLETON"
    and r1: "resolve (Suc n) c t optional w = (Inr Undefined, w1)"
  shows "(\<exists>e. factoryCalls w1 = factoryCalls w @ ptoken rec # e)
       \<and> (\<exists>rec1. getProviderRecord w1 c t = Some (owner, rec1)
             \<and> pscope rec1 = SINGLETON \<and> factory rec1 = factory rec
             \<and> pinstance rec1 = Undefined)
       \<and> (\<forall>m optional'. \<exists>e. factoryCalls (snd (resolve (Suc m) c t optional' w1))
                                 = factoryCalls w1 @ ptoken rec # e)"
proof -
  note ri = resolve_Inr [OF r1]
  have ns: "t \<notin> set (resolutionStack (containers w c))"
    and rs: "resolveSingleton (resolveInternal n) c t owner rec w = (Inr Undefined, w1)"
    using resolveInternal_found [OF ri(1) g] sc by simp_all
  have nc: "\<not> (isResolved rec \<and> pinstance rec \<noteq> Undefined)"
    using rs by (auto simp add: resolveSingleton_def split: if_splits)
  have c1: "\<exists>e. factoryCalls w1 = factoryCalls w @ ptoken rec # e"
    using singleton_run [OF nc, of n c t owner w] rs by simp
  have fr: "frame c w w1"
    using frame_resolveInternal [of c w "Suc n" t optional] ri(1) by simp
  from lookup_frame [OF fr g] obtain rec1 where
    g1: "getProviderRecord w1 c t = Some (owner, rec1)"
    and p1: "providers (containers w1 owner) t = Some rec1" and sh: "sameShape rec rec1"
    by blast
  have sh': "pscope rec1 = SINGLETON" "factory rec1 = factory rec" "ptoken rec1 = ptoken rec"
    using sh sc by (simp_all add: sameShape_def)
  have p0: "providers (containers w owner) t = Some rec"
    using g lookup_owner by (simp add: getProviderRecord_def)
  obtain r' w' where run:
    "runFactory (resolveInternal n) c (factory rec) (noteCall (ptoken rec) (pushStack c t w)) = (r', w')"
    by (cases "runFactory (resolveInternal n) c (factory rec) (noteCall (ptoken rec) (pushStack c t w))")
  from rs nc run have w1: "w1 = popStack c (storeInstance owner t Undefined w')"
    by (cases r') (auto simp add: resolveSingleton_def split: if_splits)
  have "frame c (pushStack c t w) w'"
    using frame_called [where ri = "resolveInternal n" and c = c, OF frame_resolveInternal run] .
  then have "rel_option sameShape (providers (containers w owner) t)
                                   (providers (containers w' owner) t)"
    by (simp add: frame_def)
  with p0 obtain r0 where "providers (containers w' owner) t = Some r0"
    by (cases "providers (containers w' owner) t") auto
  with p1 have u: "pinstance rec1 = Undefined" by (auto simp add: w1 providers_storeInstance)
  have ns1: "t \<notin> set (resolutionStack (containers w1 c))"
    using ns frame_stack [OF fr] by simp
  have c3: "\<exists>e. factoryCalls (snd (resolve (Suc m) c t optional' w1))
                  = factoryCalls w1 @ ptoken rec # e" for m optional'
  proof -
    have "snd (resolve (Suc m) c t optional' w1)
            = snd (resolveSingleton (resolveInternal m) c t owner rec1 w1)"
      using ns1 g1 sh' by (simp add: snd_resolve)
    then show ?thesis
      using singleton_run [of rec1 m c t owner w1] u sh' by simp
  qed
  have c2: "\<exists>rec1. getProviderRecord w1 c t = Some (owner, rec1)
             \<and> pscope rec1 = SINGLETON \<and> factory rec1 = factory rec
             \<and> pinstance rec1 = Undefined"
    using g1 sh' u by (intro exI [of _ rec1]) simp
  show ?thesis
  proof (intro conjI allI)
    show "\<exists>e. factoryCalls w1 = factoryCalls w @ ptoken rec # e" by (rule c1)
    show "\<exists>rec1. getProviderRecord w1 c t = Some (owner, rec1)
             \<and> pscope rec1 = SINGLETON \<and> factory rec1 = factory rec
             \<and> pinstance rec1 = Undefined" by (rule c2)
    show "\<exists>e. factoryCalls (snd (resolve (Suc m) c t optional' w1))
                  = factoryCalls w1 @ ptoken rec # e" for m optional'
      by (rule c3)
  qed
qed


lemmas fixture_defs = registered_def alwaysUndefined_def undefinedOnce_def constantX_def
  plainClass_def createRequestScope_def createChild_def


theorem undefined_singleton_reinvoked_witness:
  "fst (resolve (Suc 0) 0 (StringToken ''S'') False
          (registered [FactoryProvider (StringToken ''S'') alwaysUndefined [] None]))
     = Inr Undefined
 \<and> factoryCalls (snd (resolve (Suc 0) 0 (StringToken ''S'') False
          (registered [FactoryProvider (StringToken ''S'') alwaysUndefined [] None])))
     = [StringToken ''S'']
 \<and> factoryCalls (snd (resolve (Suc 0) 0 (StringToken ''S'') False
        (snd (resolve (Suc 0) 0 (StringToken ''S'') False
          (registered [FactoryProvider (StringToken ''S'') alwaysUndefined [] None])))))
     = [StringToken ''S'', StringToken ''S'']"
  using undefined_singleton_reinvoked [where
      w = "registered [FactoryProvider (StringToken ''S'') alwaysUndefined [] None]"
      and c = 0 and t = "StringToken ''S''" and owner = 0 and n = 0 and optional = False
      and rec = "\<lparr>ptoken = StringToken ''S'', pscope = SINGLETON,
                  factory = UserFactory [] alwaysUndefined, pinstance = Undefined,
                  isResolved = False\<rparr>"
      and ?w1.0 = "snd (resolve (Suc 0) 0 (StringToken ''S'') False
          (registered [FactoryProvider (StringToken ''S'') alwaysUndefined [] None]))"]
  by (simp add: di_defs fixture_defs)


text \<open>
  C4, as stated, fails for provider factories that do not build a new object on every call.
  A singleton whose factory returns \<^verbatim>\<open>undefined\<close> on its first call and an object afterwards
  is resolved to \<^verbatim>\<open>undefined\<close> and then to the object: two different instances. A transient
  provider whose factory returns the constant \<^verbatim>\<open>'x'\<close> is resolved to the same value twice.
\<close>

theorem scope_identity_counterexample:
  "fst (resolve (Suc 0) 0 (StringToken ''S'') False
          (registered [FactoryProvider (StringToken ''S'') undefinedOnce [] None]))
     = Inr Undefined
 \<and> fst (resolve (Suc 0) 0 (StringToken ''S'') False
        (snd (resolve (Suc 0) 0 (StringToken ''S'') False
          (registered [FactoryProvider (StringToken ''S'') undefinedOnce [] None]))))
     = Inr (Obj 1)
 \<and> fst (resolve (Suc 0) 0 (StringToken ''T'') False
          (registered [FactoryProvider (StringToken ''T'') constantX [] (Some TRANSIENT)]))
     = Inr (Prim ''x'')
 \<and> fst (resolve (Suc 0) 0 (StringToken ''T'') False
        (snd (resolve (Suc 0) 0 (StringToken ''T'') False
          (registered [FactoryProvider (StringToken ''T'') constantX [] (Some TRANSIENT)]))))
     = Inr (Prim ''x'')"
  by (simp add: di_defs fixture_defs)

lemma request_scopes_fresh:
  assumes "createRequestScope p w = (c1, wa)" "createRequestScope p wa = (c2, wb)"
  shows "c1 \<noteq> c2 \<and> scopedInstances (containers wb c1) = Map.empty
       \<and> scopedInstances (containers wb c2) = Map.empty
       \<and> parent (containers wb c1) = Some p \<and> parent (containers wb c2) = Some p"
  using assms by (auto simp add: createRequestScope_def createChild_def newContainer_def)


text \<open>
  C4, amended. Let the token resolve to the record \<open>rec\<close>, and let the resolutions below
  succeed synchronously.
  \<^item> Singleton: when a resolution returns an instance other than \<^verbatim>\<open>undefined\<close>, every later
    resolution on the same container returns the identical instance and changes nothing.
  \<^item> Transient: each of two resolutions runs the factory; for a class provider the two
    instances are distinct objects.
  \<^item> Request: a second resolution on the same container returns the identical instance and
    changes nothing; two containers whose scoped cache does not hold the token yet each
    run the factory, and for a class provider they obtain distinct objects.
  \<^item> Two calls of \<^verbatim>\<open>createRequestScope\<close> on one parent yield two different containers with
    that parent and empty scoped caches.
\<close>

theorem scope_semantics:
  "(getProviderRecord w c t = Some (owner, rec) \<and> pscope rec = SINGLETON
      \<and> resolve (Suc n) c t optional w = (Inr v, w1) \<and> v \<noteq> Undefined
     \<longrightarrow> resolve (Suc m) c t optional' w1 = (Inr v, w1))
 \<and> (getProviderRecord w c t = Some (owner, rec) \<and> pscope rec = TRANSIENT
      \<and> resolve (Suc n) c t optional w = (Inr v1, w1)
      \<and> resolve (Suc m) c t optional' w1 = (Inr v2, w2)
     \<longrightarrow> (\<exists>e1. factoryCalls w1 = factoryCalls w @ ptoken rec # e1)
       \<and> (\<exists>e2. factoryCalls w2 = factoryCalls w1 @ ptoken rec # e2)
       \<and> (\<forall>cls deps. factory rec = ClassFactory cls deps
             \<longrightarrow> (\<exists>k1 k2. v1 = Obj k1 \<and> v2 = Obj k2 \<and> k1 < k2)))
 \<and> (getProviderRecord w c t = Some (owner, rec) \<and> pscope rec = REQUEST
      \<and> resolve (Suc n) c t optional w = (Inr v, w1)
     \<longrightarrow> resolve (Suc m) c t optional' w1 = (Inr v, w1))
 \<and> (getProviderRecord w c t = Some (owner, rec) \<and> getProviderRecord w c2 t = Some (owner, rec)
      \<and> pscope rec = REQUEST \<and> c \<noteq> c2
      \<and> scopedInstances (containers w c) t = None \<and> scopedInstances (containers w c2) t = None
      \<and> resolve (Suc n) c t optional w = (Inr v1, w1)
      \<and> resolve (Suc m) c2 t optional' w1 = (Inr v2, w2)
     \<longrightarrow> (\<exists>e1. factoryCalls w1 = factoryCalls w @ ptoken rec # e1)
       \<and> (\<exists>e2. factoryCalls w2 = factoryCalls w1 @ ptoken rec # e2)
       \<and> (\<forall>cls deps. factory rec = ClassFactory cls deps
             \<longrightarrow> (\<exists>k1 k2. v1 = Obj k1 \<and> v2 = Obj k2 \<and> k1 < k2)))
 \<and> (createRequestScope p w = (c, wa) \<and> createRequestScope p wa = (c2, wb)
     \<longrightarrow> c \<noteq> c2 \<and> scopedInstances (containers wb c) = Map.empty
       \<and> scopedInstances (containers wb c2) = Map.empty
       \<and> parent (containers wb c) = Some p \<and> parent (containers wb c2) = Some p)"
proof (intro conjI)
  show "getProviderRecord w c t = Some (owner, rec) \<and> pscope rec = SINGLETON
      \<and> resolve (Suc n) c t optional w = (Inr v, w1) \<and> v \<noteq> Undefined
     \<longrightarrow> resolve (Suc m) c t optional' w1 = (Inr v, w1)"
    using singleton_twice [of w c t owner rec n optional v w1 m optional'] by simp
next
  show "getProviderRecord w c t = Some (owner, rec) \<and> pscope rec = TRANSIENT
      \<and> resolve (Suc n) c t optional w = (Inr v1, w1)
      \<and> resolve (Suc m) c t optional' w1 = (Inr v2, w2)
     \<longrightarrow> (\<exists>e1. factoryCalls w1 = factoryCalls w @ ptoken rec # e1)
       \<and> (\<exists>e2. factoryCalls w2 = factoryCalls w1 @ ptoken rec # e2)
       \<and> (\<forall>cls deps. factory rec = ClassFactory cls deps
             \<longrightarrow> (\<exists>k1 k2. v1 = Obj k1 \<and> v2 = Obj k2 \<and> k1 < k2))"
    using transient_twice [of w c t owner rec n optional v1 w1 m optional' v2 w2] by simp
next
  show "getProviderRecord w c t = Some (owner, rec) \<and> pscope rec = REQUEST
      \<and> resolve (Suc n) c t optional w = (Inr v, w1)
     \<longrightarrow> resolve (Suc m) c t optional' w1 = (Inr v, w1)"
    using request_twice [of w c t owner rec n optional v w1 m optional'] by simp
next
  show "getProviderRecord w c t = Some (owner, rec) \<and> getProviderRecord w c2 t = Some (owner, rec)
      \<and> pscope rec = REQUEST \<and> c \<noteq> c2
      \<and> scopedInstances (containers w c) t = None \<and> scopedInstances (containers w c2) t = None
      \<and> resolve (Suc n) c t optional w = (Inr v1, w1)
      \<and> resolve (Suc m) c2 t optional' w1 = (Inr v2, w2)
     \<longrightarrow> (\<exists>e1. factoryCalls w1 = factoryCalls w @ ptoken rec # e1)
       \<and> (\<exists>e2. factoryCalls w2 = factoryCalls w1 @ ptoken rec # e2)
       \<and> (\<forall>cls deps. factory rec = ClassFactory cls deps
             \<longrightarrow> (\<exists>k1 k2. v1 = Obj k1 \<and> v2 = Obj k2 \<and> k1 < k2))"
    using request_sibling [of w c t owner rec c2 n optional v1 w1 m optional' v2 w2] by simp
next
  show "createRequestScope p w = (c, wa) \<and> createRequestScope p wa = (c2, wb)
     \<longrightarrow> c \<noteq> c2 \<and> scopedInstances (containers wb c) = Map.empty
       \<and> scopedInstances (containers wb c2) = Map.empty
       \<and> parent (containers wb c) = Some p \<and> parent (containers wb c2) = Some p"
    using request_scopes_fresh [of p w c wa c2 wb] by simp
qed

lemmas example_defs = exampleWorld_def exampleScopes_def


theorem scope_semantics_witness:
  "fst (resolve (Suc 0) 0 (StringToken ''S'') False exampleWorld) = Inr (Obj 0)
 \<and> fst (resolve (Suc 0) 0 (StringToken ''S'') False
        (snd (resolve (Suc 0) 0 (StringToken ''S'') False exampleWorld))) = Inr (Obj 0)
 \<and> fst (resolve (Suc 0) 0 (StringToken ''T'') False exampleWorld) = Inr (Obj 0)
 \<and> fst (resolve (Suc 0) 0 (StringToken ''T'') False
        (snd (resolve (Suc 0) 0 (StringToken ''T'') False exampleWorld))) = Inr (Obj 1)
 \<and> fst (createRequestScope 0 exampleWorld) = 1
 \<and> fst (createRequestScope 0 (snd (createRequestScope 0 exampleWorld))) = 2
 \<and> fst (resolve (Suc 0) 1 (StringToken ''R'') False exampleScopes) = Inr (Obj 0)
 \<and> fst (resolve (Suc 0) 1 (StringToken ''R'') False
        (snd (resolve (Suc 0) 1 (StringToken ''R'') False exampleScopes))) = Inr (Obj 0)
 \<and> fst (resolve (Suc 0) 2 (StringToken ''R'') False
        (snd (resolve (Suc 0) 1 (StringToken ''R'') False exampleScopes))) = Inr (Obj 1)"
  using
    scope_semantics [where w = exampleWorld and c = 0 and t = "StringToken ''S''"
      and owner = 0 and n = 0 and m = 0 and optional = False and optional' = False
      and rec = "\<lparr>ptoken = StringToken ''S'', pscope = SINGLETON,
                  factory = ClassFactory ''S'' [], pinstance = Undefined, isResolved = False\<rparr>"
      and v = "Obj 0"
      and ?w1.0 = "snd (resolve (Suc 0) 0 (StringToken ''S'') False exampleWorld)",
      THEN conjunct1]
    scope_semantics [where w = exampleWorld and c = 0 and t = "StringToken ''T''"
      and owner = 0 and n = 0 and m = 0 and optional = False and optional' = False
      and rec = "\<lparr>ptoken = StringToken ''T'', pscope = TRANSIENT,
                  factory = ClassFactory ''T'' [], pinstance = Undefined, isResolved = False\<rparr>"
      and ?v1.0 = "Obj 0" and ?v2.0 = "Obj 1"
      and ?w1.0 = "snd (resolve (Suc 0) 0 (StringToken ''T'') False exampleWorld)"
      and ?w2.0 = "snd (resolve (Suc 0) 0 (StringToken ''T'') False
                     (snd (resolve (Suc 0) 0 (StringToken ''T'') False exampleWorld)))",
      THEN conjunct2, THEN conjunct1]
    scope_semantics [where w = exampleScopes and c = 1 and t = "StringToken ''R''"
      and owner = 0 and n = 0 and m = 0 and optional = False and optional' = False
      and rec = "\<lparr>ptoken = StringToken ''R'', pscope = REQUEST,
                  factory = ClassFactory ''R'' [], pinstance = Undefined, isResolved = False\<rparr>"
      and v = "Obj 0"
      and ?w1.0 = "snd (resolve (Suc 0) 1 (StringToken ''R'') False exampleScopes)",
      THEN conjunct2, THEN conjunct2, THEN conjunct1]
    scope_semantics [where w = exampleScopes and c = 1 and ?c2.0 = 2
      and t = "StringToken ''R''"
      and owner = 0 and n = 0 and m = 0 and optional = False and optional' = False
      and rec = "\<lparr>ptoken = StringToken ''R'', pscope = REQUEST,
                  factory = ClassFactory ''R'' [], pinstance = Undefined, isResolved = False\<rparr>"
      and ?v1.0 = "Obj 0" and ?v2.0 = "Obj 1"
      and ?w1.0 = "snd (resolve (Suc 0) 1 (StringToken ''R'') False exampleScopes)"
      and ?w2.0 = "snd (resolve (Suc 0) 2 (StringToken ''R'') False
                     (snd (resolve (Suc 0) 1 (StringToken ''R'') False exampleScopes)))",
      THEN conjunct2, THEN conjunct2, THEN conjunct2, THEN conjunct1]
    scope_semantics [where p = 0 and w = exampleWorld and c = 1 and ?c2.0 = 2
      and wa = "snd (createRequestScope 0 exampleWorld)" and wb = exampleScopes,
      THEN conjunct2, THEN conjunct2, THEN conjunct2, THEN conjunct2]
  by (simp add: di_defs fixture_defs example_defs)


section \<open>Supporting facts\<close>

text \<open>
  The parameter branches of \<^verbatim>\<open>matchPath\<close> do restore what they bound: where no wildcard
  child can be reached, a failed match returns the parameter map it was given.
\<close>

lemma map_of_snd: "map_of xs k = Some v \<Longrightarrow> v \<in> snd ` set xs"
  by (metis map_of_SomeD snd_conv image_eqI)

lemma failed_match_restores:
  "wildcardFree segs node \<Longrightarrow> fst (matchPath segs node ps m) = None
     \<Longrightarrow> snd (matchPath segs node ps m) = ps"
proof (induction segs arbitrary: node ps)
  case Nil
  then show ?case by simp
next
  case (Cons seg rest)
  note ih = Cons.IH
  from Cons.prems(1) have nw: "wildcardChild node = None"
    and ch: "\<And>c. c \<in> snd ` set (children node) \<Longrightarrow> wildcardFree rest c"
    and gc: "\<And>c g. c \<in> snd ` set (children node) \<Longrightarrow> g \<in> snd ` set (children c)
               \<Longrightarrow> wildcardFree rest g"
    and pc: "\<And>pc. paramChild node = Some pc \<Longrightarrow> wildcardFree rest pc"
    by auto
  define s1 where "s1 = (case map_of (children node) (take 1 seg) of
                  None \<Rightarrow> (None, ps)
                | Some staticChild \<Rightarrow>
                    (if segment staticChild = seg
                     then matchPath rest staticChild ps m
                     else if startsWith seg (segment staticChild)
                     then (let remaining = drop (length (segment staticChild)) seg;
                               nextFirstChar = take 1 remaining
                           in (case map_of (children staticChild) nextFirstChar of
                                 None \<Rightarrow> (None, ps)
                               | Some nextChild \<Rightarrow>
                                   (if remaining = segment nextChild
                                    then matchPath rest nextChild ps m
                                    else (None, ps))))
                     else (None, ps)))"
  have s1_ok: "snd s1 = ps" if f: "fst s1 = None"
  proof (cases "map_of (children node) (take 1 seg)")
    case None
    then show ?thesis by (simp add: s1_def)
  next
    case (Some sc)
    then have sc: "sc \<in> snd ` set (children node)" by (rule map_of_snd)
    show ?thesis
    proof (cases "segment sc = seg")
      case True
      with Some have e: "s1 = matchPath rest sc ps m" by (simp add: s1_def)
      show ?thesis using f ih [OF ch [OF sc]] by (simp add: e)
    next
      case False
      note ne = False
      show ?thesis
      proof (cases "startsWith seg (segment sc)")
        case False
        with Some ne show ?thesis by (simp add: s1_def)
      next
        case True
        show ?thesis
        proof (cases "map_of (children sc) (take 1 (drop (length (segment sc)) seg))")
          case None
          with Some ne True show ?thesis by (simp add: s1_def Let_def)
        next
          case (Some nc)
          then have nc: "nc \<in> snd ` set (children sc)" by (rule map_of_snd)
          show ?thesis
          proof (cases "drop (length (segment sc)) seg = segment nc")
            case False
            with \<open>map_of (children node) (take 1 seg) = Some sc\<close> Some ne True
            show ?thesis by (simp add: s1_def Let_def)
          next
            case eq: True
            with \<open>map_of (children node) (take 1 seg) = Some sc\<close> Some ne True
            have e: "s1 = matchPath rest nc ps m" by (simp add: s1_def Let_def)
            show ?thesis using f ih [OF gc [OF sc nc]] by (simp add: e)
          qed
        qed
      qed
    qed
  qed
  have pr: "(snd (matchPath rest q (p(segment q \<mapsto> seg)) m))(segment q := p (segment q)) = p"
    if "paramChild node = Some q" "fst (matchPath rest q (p(segment q \<mapsto> seg)) m) = None" for q p
  proof -
    have "snd (matchPath rest q (p(segment q \<mapsto> seg)) m) = p(segment q \<mapsto> seg)"
      by (rule ih [OF pc [OF that(1)] that(2)])
    then show ?thesis by simp
  qed
  define s2 where "s2 = (\<lambda>p1. case paramChild node of
                   None \<Rightarrow> (None, p1)
                 | Some pc \<Rightarrow>
                     (case pattern pc of
                        None \<Rightarrow> (None, p1)
                      | Some test \<Rightarrow>
                          (if test seg
                           then (let r = matchPath rest pc (p1(segment pc \<mapsto> seg)) m
                                 in (if fst r \<noteq> None then r
                                     else (None, (snd r)(segment pc := p1 (segment pc)))))
                           else (None, p1))))"
  have s2_ok: "fst (s2 p) = None \<Longrightarrow> snd (s2 p) = p" for p
    unfolding s2_def
    by (auto simp add: Let_def pr split: option.splits if_splits)
  define s3 where "s3 = (\<lambda>p2. case paramChild node of
                   None \<Rightarrow> (None, p2)
                 | Some pc \<Rightarrow>
                     (case pattern pc of
                        Some test \<Rightarrow> (None, p2)
                      | None \<Rightarrow>
                          (let r = matchPath rest pc (p2(segment pc \<mapsto> seg)) m
                           in (if fst r \<noteq> None then r
                               else (None, (snd r)(segment pc := p2 (segment pc)))))))"
  have s3_ok: "fst (s3 p) = None \<Longrightarrow> snd (s3 p) = p" for p
    unfolding s3_def
    by (auto simp add: Let_def pr split: option.splits if_splits)
  have unfold: "matchPath (seg # rest) node ps m =
     (if fst s1 \<noteq> None then s1
      else if fst (s2 (snd s1)) \<noteq> None then s2 (snd s1)
      else if fst (s3 (snd (s2 (snd s1)))) \<noteq> None then s3 (snd (s2 (snd s1)))
      else (None, snd (s3 (snd (s2 (snd s1))))))"
    unfolding matchPath.simps Let_def s1_def s2_def s3_def nw option.case by (rule refl)
  have f1: "fst s1 = None" and f2: "fst (s2 (snd s1)) = None"
    and f3: "fst (s3 (snd (s2 (snd s1)))) = None"
    using Cons.prems(2) unfolding unfold by (auto split: if_splits)
  have "snd (s3 (snd (s2 (snd s1)))) = ps"
    using s1_ok [OF f1] s2_ok [OF f2] s3_ok [OF f3] by simp
  then show ?case using f1 f2 f3 unfolding unfold by simp
qed

text \<open>
  Static splits one level deep round-trip (\<^verbatim>\<open>/t\<close> and \<^verbatim>\<open>/tea\<close>). Registered in the order
  \<^verbatim>\<open>/tea\<close>, \<^verbatim>\<open>/te\<close>, \<^verbatim>\<open>/t\<close> the tree is split twice correctly, but \<^verbatim>\<open>matchPath\<close> follows
  only one split node, so \<^verbatim>\<open>/tea\<close> still does not match.
\<close>

lemma static_split_other_orders:
  "(let r1 = fst (register compile ''GET'' ''/tea'' h3 newRouter);
        r2 = fst (register compile ''GET'' ''/te'' h2 r1);
        r3 = fst (register compile ''GET'' ''/t'' h1 r2)
    in match r3 ''GET'' ''/tea'' = None
     \<and> match r3 ''GET'' ''/te'' = Some (h2, Map.empty)
     \<and> match r3 ''GET'' ''/t'' = Some (h1, Map.empty))
 \<and> (let r1 = fst (register compile ''GET'' ''/t'' h1 newRouter);
        r2 = fst (register compile ''GET'' ''/tea'' h3 r1)
    in match r2 ''GET'' ''/tea'' = Some (h3, Map.empty)
     \<and> match r2 ''GET'' ''/t'' = Some (h1, Map.empty))"
  by (simp add: router_defs Let_def)


text \<open>
  The singleton and the request-scoped path push their token, so a cycle through them is
  reported with its full path.
\<close>

lemma singleton_cycle_detected:
  "fst (resolve (Suc (Suc (Suc n))) 0 (StringToken ''A'') False
         (registered [FactoryProvider (StringToken ''A'') f [StringToken ''B''] None,
                      FactoryProvider (StringToken ''B'') g [StringToken ''A''] None]))
     = Inl (CircularDependencyError ''Circular dependency detected: A -> B -> A'')
 \<and> fst (resolve (Suc (Suc (Suc n))) 0 (StringToken ''A'') False
         (registered [FactoryProvider (StringToken ''A'') f [StringToken ''B''] (Some REQUEST),
                      FactoryProvider (StringToken ''B'') g [StringToken ''A''] (Some REQUEST)]))
     = Inl (CircularDependencyError ''Circular dependency detected: A -> B -> A'')"
  by (simp add: di_defs registered_def)

end
